theory Spec2Isabelle
  imports Main "HOL-Library.Word"
begin

unbundle bit_operations_syntax

section \<open>Machine types\<close>

text \<open>
  \<open>uint8_t\<close> is an 8-bit word and \<open>size_t\<close> a 64-bit word (LP64): addition and
  subtraction wrap modulo \<open>2 ^ 64\<close>, and \<open>SIZE_MAX\<close> is the all-ones word.
  \<open>ssize_t\<close> results of \<open>read(2)\<close> and \<open>write(2)\<close> are integers.
\<close>

type_synonym byte = "8 word"
type_synonym size_t = "64 word"

definition SIZE_MAX :: size_t where
  "SIZE_MAX = - 1"

section \<open>Bitmap\<close>

text \<open>
  Modelled from the spec: the bitmap library (\<open>bitmap.h\<close>, \<open>bitmap.c\<close>) is not among the
  sources. The spec gives a byte buffer of \<open>ceil(bit_count / 8)\<close> bytes and the bit count;
  bit \<open>i\<close> lives at byte \<open>i / 8\<close>, bit position \<open>i % 8\<close>; a new bitmap has all bits
  clear; set and reset are idempotent; the total is the sum of the population counts of
  all backing bytes. An index outside \<open>[0, bit_count)\<close> is a precondition violation:
  here test answers False and set and reset change nothing.
\<close>

record bitmap =
  bm_data :: "byte list"
  bit_count :: nat

definition bitmap_new :: "nat \<Rightarrow> bitmap" where
  "bitmap_new n = \<lparr>bm_data = replicate ((n + 7) div 8) 0, bit_count = n\<rparr>"

definition bitmap_test :: "bitmap \<Rightarrow> nat \<Rightarrow> bool" where
  "bitmap_test bm i \<longleftrightarrow> i < bit_count bm \<and> bit (bm_data bm ! (i div 8)) (i mod 8)"

definition bitmap_set :: "bitmap \<Rightarrow> nat \<Rightarrow> bitmap" where
  "bitmap_set bm i =
     (if i < bit_count bm
      then bm\<lparr>bm_data := (bm_data bm)[i div 8 := (bm_data bm ! (i div 8)) OR push_bit (i mod 8) 1]\<rparr>
      else bm)"

definition bitmap_reset :: "bitmap \<Rightarrow> nat \<Rightarrow> bitmap" where
  "bitmap_reset bm i =
     (if i < bit_count bm
      then bm\<lparr>bm_data := (bm_data bm)[i div 8 := (bm_data bm ! (i div 8)) AND NOT (push_bit (i mod 8) 1)]\<rparr>
      else bm)"

definition popcount :: "byte \<Rightarrow> nat" where
  "popcount b = length (filter (bit b) [0..<8])"

definition bitmap_total_set :: "bitmap \<Rightarrow> nat" where
  "bitmap_total_set bm = sum_list (map popcount (bm_data bm))"

text \<open>
  The representation invariant of a bitmap: the buffer has \<open>ceil(bit_count / 8)\<close> bytes
  and the padding bits of the last byte are clear.
\<close>

definition bitmap_ok :: "bitmap \<Rightarrow> bool" where
  "bitmap_ok bm \<longleftrightarrow>
     length (bm_data bm) = (bit_count bm + 7) div 8 \<and>
     list_all (\<lambda>i. \<not> bit (bm_data bm ! (i div 8)) (i mod 8))
       [bit_count bm ..< 8 * length (bm_data bm)]"

section \<open>Configuration\<close>

text \<open>
  The constants of \<open>block_store.h\<close>, which is not among the sources, are parameters:
  \<open>BLOCK_STORE_NUM_BLOCKS\<close> (the spec's \<open>N\<close>), \<open>BLOCK_SIZE_BYTES\<close> (\<open>B\<close>),
  \<open>BLOCK_STORE_NUM_BYTES\<close>, and the reserved metadata range given by
  \<open>BITMAP_START_BLOCK\<close> and \<open>BITMAP_NUM_BLOCKS\<close>.
\<close>

record config =
  BLOCK_STORE_NUM_BLOCKS :: size_t
  BLOCK_SIZE_BYTES :: size_t
  BLOCK_STORE_NUM_BYTES :: size_t
  BITMAP_START_BLOCK :: size_t
  BITMAP_NUM_BLOCKS :: size_t

text \<open>
  Modelled from the spec: the raw buffer has \<open>N * B\<close> bytes and the reserved range is a
  sub-range of the blocks. The byte count fits \<open>ssize_t\<close>.
\<close>

definition config_ok :: "config \<Rightarrow> bool" where
  "config_ok cfg \<longleftrightarrow>
     unat (BLOCK_STORE_NUM_BLOCKS cfg) * unat (BLOCK_SIZE_BYTES cfg) = unat (BLOCK_STORE_NUM_BYTES cfg) \<and>
     unat (BLOCK_STORE_NUM_BYTES cfg) < 2 ^ 63 \<and>
     unat (BITMAP_START_BLOCK cfg) + unat (BITMAP_NUM_BLOCKS cfg) \<le> unat (BLOCK_STORE_NUM_BLOCKS cfg)"

definition reserved :: "config \<Rightarrow> size_t \<Rightarrow> bool" where
  "reserved cfg i \<longleftrightarrow>
     i \<ge> BITMAP_START_BLOCK cfg \<and> i < BITMAP_START_BLOCK cfg + BITMAP_NUM_BLOCKS cfg"

section \<open>Block store\<close>

text \<open>
  The sources hold several versions of \<open>block_store.c\<close>. The definitions below follow
  the complete one, the first unit of \<open>unnamed/part_001\<close>, in which every operation is
  implemented. \<open>src/block_store.c\<close> is an earlier draft: its counters, block input and
  output and persistence functions are stubs, its create, request and release are the
  same, and its allocate differs; that one is modelled separately below.

  \<open>struct block_store\<close>: the bitmap pointer (None is NULL) and the data array. A store
  handle is a pointer as well, so operations take and return a \<open>block_store option\<close>.
\<close>

record block_store =
  bitmap :: "bitmap option"
  data :: "byte list"

text \<open>
  What the C types and the constructors guarantee of a fully constructed store: the array
  has \<open>BLOCK_STORE_NUM_BYTES\<close> bytes and the bitmap has one bit per block.
\<close>

definition store_ok :: "config \<Rightarrow> block_store \<Rightarrow> bool" where
  "store_ok cfg s \<longleftrightarrow>
     length (data s) = unat (BLOCK_STORE_NUM_BYTES cfg) \<and>
     (case bitmap s of None \<Rightarrow> False
      | Some bm \<Rightarrow> bitmap_ok bm \<and> bit_count bm = unat (BLOCK_STORE_NUM_BLOCKS cfg))"

definition block_store_get_total_blocks :: "config \<Rightarrow> size_t" where
  "block_store_get_total_blocks cfg = BLOCK_STORE_NUM_BLOCKS cfg"

subsection \<open>Allocation\<close>

text \<open>The \<open>for\<close> loop of \<open>block_store_allocate\<close>, from index \<open>i\<close> on.\<close>

function allocate_from :: "config \<Rightarrow> bitmap \<Rightarrow> size_t \<Rightarrow> size_t \<times> bitmap" where
  "allocate_from cfg bm i =
     (if i < block_store_get_total_blocks cfg then
        if i \<ge> BITMAP_START_BLOCK cfg \<and> i < BITMAP_START_BLOCK cfg + BITMAP_NUM_BLOCKS cfg
        then allocate_from cfg bm (i + 1)
        else if bitmap_test bm (unat i) = False
        then (i, bitmap_set bm (unat i))
        else allocate_from cfg bm (i + 1)
      else (SIZE_MAX, bm))"
  by pat_completeness auto
termination
proof (relation "measure (\<lambda>(cfg, bm, i). unat (block_store_get_total_blocks cfg) - unat i)")
  fix cfg :: config and bm :: bitmap and i :: size_t
  assume "i < block_store_get_total_blocks cfg"
  then have "unat (block_store_get_total_blocks cfg) - unat (i + 1)
      < unat (block_store_get_total_blocks cfg) - unat i"
    by unat_arith
  then show "((cfg, bm, i + 1), (cfg, bm, i))
      \<in> measure (\<lambda>(cfg, bm, i). unat (block_store_get_total_blocks cfg) - unat i)"
    by simp
  then show "((cfg, bm, i + 1), (cfg, bm, i))
      \<in> measure (\<lambda>(cfg, bm, i). unat (block_store_get_total_blocks cfg) - unat i)" .
qed simp

declare allocate_from.simps [simp del]

definition block_store_allocate :: "config \<Rightarrow> block_store option \<Rightarrow> size_t \<times> block_store option" where
  "block_store_allocate cfg bs =
     (case bs of None \<Rightarrow> (SIZE_MAX, bs)
      | Some s \<Rightarrow>
          (case bitmap s of None \<Rightarrow> (SIZE_MAX, bs)
           | Some bm \<Rightarrow>
               (let (r, bm') = allocate_from cfg bm 0
                in (r, Some (s\<lparr>bitmap := Some bm'\<rparr>)))))"

text \<open>
  \<open>block_store_allocate\<close> of the draft in \<open>src/block_store.c\<close>: the scan has no test
  for the reserved range, and the bitmap pointer is passed to \<open>bitmap_test\<close> without a
  NULL check. What the bitmap library does with a NULL bitmap is not given: None.
\<close>

function allocate_from_draft :: "config \<Rightarrow> bitmap \<Rightarrow> size_t \<Rightarrow> size_t \<times> bitmap" where
  "allocate_from_draft cfg bm i =
     (if i < BLOCK_STORE_NUM_BLOCKS cfg then
        if bitmap_test bm (unat i) = False
        then (i, bitmap_set bm (unat i))
        else allocate_from_draft cfg bm (i + 1)
      else (SIZE_MAX, bm))"
  by pat_completeness auto
termination
proof (relation "measure (\<lambda>(cfg, bm, i). unat (BLOCK_STORE_NUM_BLOCKS cfg) - unat i)")
  fix cfg :: config and bm :: bitmap and i :: size_t
  assume "i < BLOCK_STORE_NUM_BLOCKS cfg"
  then have "unat (BLOCK_STORE_NUM_BLOCKS cfg) - unat (i + 1)
      < unat (BLOCK_STORE_NUM_BLOCKS cfg) - unat i"
    by unat_arith
  then show "((cfg, bm, i + 1), (cfg, bm, i))
      \<in> measure (\<lambda>(cfg, bm, i). unat (BLOCK_STORE_NUM_BLOCKS cfg) - unat i)"
    by simp
qed simp

declare allocate_from_draft.simps [simp del]

definition block_store_allocate_draft ::
  "config \<Rightarrow> block_store option \<Rightarrow> (size_t \<times> block_store option) option" where
  "block_store_allocate_draft cfg bs =
     (case bs of None \<Rightarrow> Some (SIZE_MAX, bs)
      | Some s \<Rightarrow>
          (case bitmap s of None \<Rightarrow> None
           | Some bm \<Rightarrow>
               (let (r, bm') = allocate_from_draft cfg bm 0
                in Some (r, Some (s\<lparr>bitmap := Some bm'\<rparr>)))))"

definition block_store_request :: "config \<Rightarrow> block_store option \<Rightarrow> size_t \<Rightarrow> bool \<times> block_store option" where
  "block_store_request cfg bs block_id =
     (case bs of None \<Rightarrow> (False, bs)
      | Some s \<Rightarrow>
          (case bitmap s of None \<Rightarrow> (False, bs)
           | Some bm \<Rightarrow>
               if block_id \<ge> block_store_get_total_blocks cfg then (False, bs)
               else if \<not> bitmap_test bm (unat block_id)
               then (True, Some (s\<lparr>bitmap := Some (bitmap_set bm (unat block_id))\<rparr>))
               else (False, bs)))"

definition block_store_release :: "config \<Rightarrow> block_store option \<Rightarrow> size_t \<Rightarrow> block_store option" where
  "block_store_release cfg bs block_id =
     (case bs of None \<Rightarrow> bs
      | Some s \<Rightarrow>
          (case bitmap s of None \<Rightarrow> bs
           | Some bm \<Rightarrow>
               if block_id < block_store_get_total_blocks cfg then
                 if bitmap_test bm (unat block_id)
                 then Some (s\<lparr>bitmap := Some (bitmap_reset bm (unat block_id))\<rparr>)
                 else bs
               else bs))"

subsection \<open>Counters\<close>

definition block_store_get_used_blocks :: "config \<Rightarrow> block_store option \<Rightarrow> size_t" where
  "block_store_get_used_blocks cfg bs =
     (case bs of None \<Rightarrow> SIZE_MAX
      | Some s \<Rightarrow>
          (case bitmap s of None \<Rightarrow> SIZE_MAX
           | Some bm \<Rightarrow> of_nat (bitmap_total_set bm) + BITMAP_NUM_BLOCKS cfg))"

definition block_store_get_free_blocks :: "config \<Rightarrow> block_store option \<Rightarrow> size_t" where
  "block_store_get_free_blocks cfg bs =
     (case bs of None \<Rightarrow> SIZE_MAX
      | Some s \<Rightarrow>
          (case bitmap s of None \<Rightarrow> SIZE_MAX
           | Some bm \<Rightarrow>
               (let total_blocks = block_store_get_total_blocks cfg;
                    used_blocks = block_store_get_used_blocks cfg bs;
                    free_blocks = total_blocks - used_blocks
                in free_blocks)))"

subsection \<open>Block input and output\<close>

text \<open>
  \<open>memcpy(dst + doff, src + soff, n)\<close> on arrays of known length. The result is None when
  the copy would leave one of the two arrays, which the C standard leaves undefined.
\<close>

definition memcpy :: "byte list \<Rightarrow> nat \<Rightarrow> byte list \<Rightarrow> nat \<Rightarrow> nat \<Rightarrow> byte list option" where
  "memcpy dst doff src soff n =
     (if doff + n \<le> length dst \<and> soff + n \<le> length src
      then Some (take doff dst @ take n (drop soff src) @ drop (doff + n) dst)
      else None)"

text \<open>
  The caller's buffer is a pointer (None is NULL) to an array. Read and write return the
  C return value together with the memory they may have changed; the outer option is None
  when the \<open>memcpy\<close> is out of bounds. \<open>bs->data\<close> is an array member and never NULL.
\<close>

definition block_store_read ::
  "config \<Rightarrow> block_store option \<Rightarrow> size_t \<Rightarrow> byte list option \<Rightarrow> (size_t \<times> byte list option) option" where
  "block_store_read cfg bs block_id buffer =
     (case bs of None \<Rightarrow> Some (0, buffer)
      | Some s \<Rightarrow>
          (case buffer of None \<Rightarrow> Some (0, buffer)
           | Some buf \<Rightarrow>
               if block_id \<ge> block_store_get_total_blocks cfg then Some (0, buffer)
               else
                 (case memcpy buf 0 (data s) (unat (block_id * BLOCK_SIZE_BYTES cfg))
                         (unat (BLOCK_SIZE_BYTES cfg)) of
                    None \<Rightarrow> None
                  | Some buf' \<Rightarrow> Some (BLOCK_SIZE_BYTES cfg, Some buf'))))"

definition block_store_write ::
  "config \<Rightarrow> block_store option \<Rightarrow> size_t \<Rightarrow> byte list option \<Rightarrow> (size_t \<times> block_store option) option" where
  "block_store_write cfg bs block_id buffer =
     (case bs of None \<Rightarrow> Some (0, bs)
      | Some s \<Rightarrow>
          (case buffer of None \<Rightarrow> Some (0, bs)
           | Some buf \<Rightarrow>
               if block_id \<ge> block_store_get_total_blocks cfg then Some (0, bs)
               else
                 (case memcpy (data s) (unat (block_id * BLOCK_SIZE_BYTES cfg)) buf 0
                         (unat (BLOCK_SIZE_BYTES cfg)) of
                    None \<Rightarrow> None
                  | Some d \<Rightarrow> Some (BLOCK_SIZE_BYTES cfg, Some (s\<lparr>data := d\<rparr>)))))"

section \<open>The environment\<close>

text \<open>
  The files, and the resources a process holds: heap objects not yet freed and file
  descriptors not yet closed. A bitmap counts as one heap object.
\<close>

record world =
  files :: "string \<rightharpoonup> byte list"
  heap_objects :: nat
  descriptors :: nat

text \<open>
  What the environment answers during one library call: whether \<open>open(2)\<close> returns a
  descriptor, whether \<open>calloc\<close> and \<open>bitmap_create\<close> return memory, and what
  \<open>read(2)\<close> or \<open>write(2)\<close> does: None is the error return \<open>-1\<close>, \<open>Some k\<close> the most
  bytes the call transfers.
\<close>

record answers =
  open_ok :: bool
  calloc_ok :: bool
  bitmap_create_ok :: bool
  transfer :: "nat option"

definition open_rdonly :: "answers \<Rightarrow> world \<Rightarrow> string \<Rightarrow> world option" where
  "open_rdonly ans w path =
     (if open_ok ans \<and> files w path \<noteq> None
      then Some (w\<lparr>descriptors := descriptors w + 1\<rparr>) else None)"

definition open_wronly_creat_trunc :: "answers \<Rightarrow> world \<Rightarrow> string \<Rightarrow> world option" where
  "open_wronly_creat_trunc ans w path =
     (if open_ok ans
      then Some (w\<lparr>files := (files w)(path \<mapsto> []), descriptors := descriptors w + 1\<rparr>)
      else None)"

definition close_fd :: "world \<Rightarrow> world" where
  "close_fd w = w\<lparr>descriptors := descriptors w - 1\<rparr>"

text \<open>\<open>read(fd, buf, count)\<close> on a fresh descriptor: the return value and the bytes read.\<close>

definition read_fd :: "answers \<Rightarrow> world \<Rightarrow> string \<Rightarrow> nat \<Rightarrow> int \<times> byte list" where
  "read_fd ans w path count =
     (case transfer ans of None \<Rightarrow> (- 1, [])
      | Some k \<Rightarrow>
          (case files w path of None \<Rightarrow> (- 1, [])
           | Some content \<Rightarrow>
               (let got = take (min k count) content in (int (length got), got))))"

text \<open>\<open>write(fd, buf, count)\<close> on a fresh descriptor: the return value and the new world.\<close>

definition write_fd :: "answers \<Rightarrow> world \<Rightarrow> string \<Rightarrow> byte list \<Rightarrow> nat \<Rightarrow> int \<times> world" where
  "write_fd ans w path buf count =
     (case transfer ans of None \<Rightarrow> (- 1, w)
      | Some k \<Rightarrow>
          (case files w path of None \<Rightarrow> (- 1, w)
           | Some content \<Rightarrow>
               (let out = take (min k count) buf
                in (int (length out),
                    w\<lparr>files := (files w)(path \<mapsto> out @ drop (length out) content)\<rparr>))))"

text \<open>\<open>calloc(1, sizeof(block_store_t))\<close>: a zeroed structure, or NULL.\<close>

definition calloc_block_store :: "config \<Rightarrow> answers \<Rightarrow> world \<Rightarrow> block_store option \<times> world" where
  "calloc_block_store cfg ans w =
     (if calloc_ok ans
      then (Some \<lparr>bitmap = None, data = replicate (unat (BLOCK_STORE_NUM_BYTES cfg)) 0\<rparr>,
            w\<lparr>heap_objects := heap_objects w + 1\<rparr>)
      else (None, w))"

definition free_obj :: "world \<Rightarrow> world" where
  "free_obj w = w\<lparr>heap_objects := heap_objects w - 1\<rparr>"

text \<open>
  Modelled from the spec: \<open>bitmap_create\<close> returns a new bitmap with all bits clear, or
  an invalid result if the allocation fails; \<open>bitmap_destroy\<close> releases the storage.
\<close>

definition bitmap_create :: "answers \<Rightarrow> world \<Rightarrow> nat \<Rightarrow> bitmap option \<times> world" where
  "bitmap_create ans w n =
     (if bitmap_create_ok ans
      then (Some (bitmap_new n), w\<lparr>heap_objects := heap_objects w + 1\<rparr>)
      else (None, w))"

definition bitmap_destroy :: "world \<Rightarrow> world" where
  "bitmap_destroy w = w\<lparr>heap_objects := heap_objects w - 1\<rparr>"

section \<open>Construction and persistence\<close>

definition block_store_create :: "config \<Rightarrow> answers \<Rightarrow> world \<Rightarrow> block_store option \<times> world" where
  "block_store_create cfg ans w =
     (case calloc_block_store cfg ans w of
        (None, w1) \<Rightarrow> (None, w1)
      | (Some block, w1) \<Rightarrow>
          (case bitmap_create ans w1 (unat (BLOCK_STORE_NUM_BLOCKS cfg)) of
             (None, w2) \<Rightarrow> (None, free_obj w2)
           | (Some bm, w2) \<Rightarrow> (Some (block\<lparr>bitmap := Some bm\<rparr>), w2)))"

definition block_store_serialize ::
  "config \<Rightarrow> answers \<Rightarrow> world \<Rightarrow> block_store option \<Rightarrow> string option \<Rightarrow> size_t \<times> world" where
  "block_store_serialize cfg ans w bs filename =
     (case bs of None \<Rightarrow> (0, w)
      | Some s \<Rightarrow>
          (case filename of None \<Rightarrow> (0, w)
           | Some path \<Rightarrow>
               (case open_wronly_creat_trunc ans w path of None \<Rightarrow> (0, w)
                | Some w1 \<Rightarrow>
                    (let (written, w2) =
                           write_fd ans w1 path (data s) (unat (BLOCK_STORE_NUM_BYTES cfg))
                     in if written \<noteq> sint (BLOCK_STORE_NUM_BYTES cfg)
                        then (0, close_fd w2)
                        else (BLOCK_STORE_NUM_BYTES cfg, close_fd w2)))))"

text \<open>The inner loop of \<open>block_store_deserialize\<close>: \<open>is_allocated\<close>, from \<open>byte_index\<close> on.\<close>

function is_allocated_from :: "config \<Rightarrow> byte list \<Rightarrow> size_t \<Rightarrow> bool" where
  "is_allocated_from cfg block_data byte_index =
     (if byte_index < BLOCK_SIZE_BYTES cfg then
        if block_data ! unat byte_index \<noteq> 0 then True
        else is_allocated_from cfg block_data (byte_index + 1)
      else False)"
  by pat_completeness auto
termination
proof (relation "measure (\<lambda>(cfg, block_data, i). unat (BLOCK_SIZE_BYTES cfg) - unat i)")
  fix cfg :: config and block_data :: "byte list" and byte_index :: size_t
  assume "byte_index < BLOCK_SIZE_BYTES cfg"
  then have "unat (BLOCK_SIZE_BYTES cfg) - unat (byte_index + 1)
      < unat (BLOCK_SIZE_BYTES cfg) - unat byte_index"
    by unat_arith
  then show "((cfg, block_data, byte_index + 1), (cfg, block_data, byte_index))
      \<in> measure (\<lambda>(cfg, block_data, i). unat (BLOCK_SIZE_BYTES cfg) - unat i)"
    by simp
qed simp

declare is_allocated_from.simps [simp del]

text \<open>The outer loop, from \<open>block_id\<close> on; \<open>bs->data + off\<close> is the array from \<open>off\<close>.\<close>

function mark_blocks_from :: "config \<Rightarrow> byte list \<Rightarrow> bitmap \<Rightarrow> size_t \<Rightarrow> bitmap" where
  "mark_blocks_from cfg d bm block_id =
     (if block_id < block_store_get_total_blocks cfg then
        mark_blocks_from cfg d
          (if is_allocated_from cfg (drop (unat (block_id * BLOCK_SIZE_BYTES cfg)) d) 0
           then bitmap_set bm (unat block_id) else bm)
          (block_id + 1)
      else bm)"
  by pat_completeness auto
termination
proof (relation "measure (\<lambda>(cfg, d, bm, i). unat (block_store_get_total_blocks cfg) - unat i)")
  fix cfg :: config and d :: "byte list" and bm :: bitmap and block_id :: size_t
  assume "block_id < block_store_get_total_blocks cfg"
  then have "unat (block_store_get_total_blocks cfg) - unat (block_id + 1)
      < unat (block_store_get_total_blocks cfg) - unat block_id"
    by unat_arith
  then show "((cfg, d,
        if is_allocated_from cfg (drop (unat (block_id * BLOCK_SIZE_BYTES cfg)) d) 0
        then bitmap_set bm (unat block_id) else bm,
        block_id + 1), (cfg, d, bm, block_id))
      \<in> measure (\<lambda>(cfg, d, bm, i). unat (block_store_get_total_blocks cfg) - unat i)"
    by simp
qed simp

declare mark_blocks_from.simps [simp del]

definition block_store_deserialize ::
  "config \<Rightarrow> answers \<Rightarrow> world \<Rightarrow> string option \<Rightarrow> block_store option \<times> world" where
  "block_store_deserialize cfg ans w filename =
     (case filename of None \<Rightarrow> (None, w)
      | Some path \<Rightarrow>
          (case open_rdonly ans w path of None \<Rightarrow> (None, w)
           | Some w1 \<Rightarrow>
               (case calloc_block_store cfg ans w1 of
                  (None, w2) \<Rightarrow> (None, close_fd w2)
                | (Some bs0, w2) \<Rightarrow>
                    (case bitmap_create ans w2 (unat (block_store_get_total_blocks cfg)) of
                       (None, w3) \<Rightarrow> (None, free_obj (close_fd w3))
                     | (Some bm, w3) \<Rightarrow>
                         (let (read_bytes, got) =
                                read_fd ans w3 path (unat (BLOCK_STORE_NUM_BYTES cfg));
                              d = got @ drop (length got) (data bs0)
                          in if read_bytes \<noteq> uint (BLOCK_STORE_NUM_BYTES cfg)
                             then (None, free_obj (close_fd (bitmap_destroy w3)))
                             else (Some \<lparr>bitmap = Some (mark_blocks_from cfg d bm 0), data = d\<rparr>,
                                   close_fd w3))))))"

section \<open>Sequences of calls\<close>

datatype call = Allocate | Request size_t | Release size_t

fun apply_call :: "config \<Rightarrow> block_store option \<Rightarrow> call \<Rightarrow> block_store option" where
  "apply_call cfg bs Allocate = snd (block_store_allocate cfg bs)"
| "apply_call cfg bs (Request block_id) = snd (block_store_request cfg bs block_id)"
| "apply_call cfg bs (Release block_id) = block_store_release cfg bs block_id"

definition run_calls :: "config \<Rightarrow> block_store option \<Rightarrow> call list \<Rightarrow> block_store option" where
  "run_calls cfg bs cs = foldl (apply_call cfg) bs cs"

text \<open>The return values of \<open>k\<close> successive calls of \<open>block_store_allocate\<close>.\<close>

fun allocate_times :: "config \<Rightarrow> block_store option \<Rightarrow> nat \<Rightarrow> size_t list" where
  "allocate_times cfg bs 0 = []"
| "allocate_times cfg bs (Suc k) =
     fst (block_store_allocate cfg bs) # allocate_times cfg (snd (block_store_allocate cfg bs)) k"

text \<open>
  The block indices in \<open>[0, N)\<close> outside the reserved range, in ascending order.
\<close>

definition unreserved_ids :: "config \<Rightarrow> size_t list" where
  "unreserved_ids cfg =
     filter (\<lambda>i. \<not> reserved cfg i) (map of_nat [0..<unat (block_store_get_total_blocks cfg)])"

text \<open>
  The state after the first-fit scan has handed out every unreserved index below \<open>m\<close>.
\<close>

definition filled_below :: "config \<Rightarrow> nat \<Rightarrow> bitmap \<Rightarrow> bool" where
  "filled_below cfg m bm \<longleftrightarrow>
     bitmap_ok bm \<and> bit_count bm = unat (block_store_get_total_blocks cfg) \<and>
     (\<forall>j < unat (block_store_get_total_blocks cfg).
        \<not> reserved cfg (of_nat j) \<longrightarrow> (bitmap_test bm j \<longleftrightarrow> j < m))"

section \<open>A small configuration\<close>

text \<open>
  The scenario of the spec: 16 blocks, reserved range \<open>[0, 2)\<close>; blocks of 4 bytes. An
  environment in which every system call succeeds, and a world without files.
\<close>

definition small_config :: config where
  "small_config =
     \<lparr>BLOCK_STORE_NUM_BLOCKS = 16, BLOCK_SIZE_BYTES = 4, BLOCK_STORE_NUM_BYTES = 64,
      BITMAP_START_BLOCK = 0, BITMAP_NUM_BLOCKS = 2\<rparr>"

definition all_ok :: answers where
  "all_ok = \<lparr>open_ok = True, calloc_ok = True, bitmap_create_ok = True, transfer = Some (2 ^ 64)\<rparr>"

definition empty_world :: world where
  "empty_world = \<lparr>files = Map.empty, heap_objects = 0, descriptors = 0\<rparr>"

definition small_store :: block_store where
  "small_store = \<lparr>bitmap = Some (bitmap_new 16), data = replicate 64 0\<rparr>"

text \<open>
  A file image of the small configuration in which only block 6 holds a non-zero byte, and
  worlds holding one file.
\<close>

definition sample_image :: "byte list" where
  "sample_image = replicate 24 0 @ [0, 7, 0, 0] @ replicate 36 0"

definition world_with :: "string \<Rightarrow> byte list \<Rightarrow> world" where
  "world_with path content = empty_world\<lparr>files := [path \<mapsto> content]\<rparr>"

section \<open>Properties of the bitmap\<close>

lemma byte_index_in_range:
  "bitmap_ok bm \<Longrightarrow> i < bit_count bm \<Longrightarrow> i div 8 < length (bm_data bm)"
  by (simp add: bitmap_ok_def)

lemma bit_set_byte:
  "k < 8 \<Longrightarrow> bit ((b :: byte) OR 2 ^ k) m \<longleftrightarrow> bit b m \<or> m = k"
  by (auto simp: bit_simps)

lemma bit_reset_byte:
  "k < 8 \<Longrightarrow> bit ((b :: byte) AND NOT (2 ^ k)) m \<longleftrightarrow> bit b m \<and> m \<noteq> k"
  by (auto simp: bit_simps dest: bit_imp_le_length)

lemma index_eq_iff: "(j :: nat) = i \<longleftrightarrow> j div 8 = i div 8 \<and> j mod 8 = i mod 8"
  by (metis div_mult_mod_eq)

lemma bit_count_bitmap_set [simp]: "bit_count (bitmap_set bm i) = bit_count bm"
  by (simp add: bitmap_set_def)

lemma bit_count_bitmap_reset [simp]: "bit_count (bitmap_reset bm i) = bit_count bm"
  by (simp add: bitmap_reset_def)

lemma raw_bit_set:
  assumes "bitmap_ok bm" "i < bit_count bm"
  shows "bit (bm_data (bitmap_set bm i) ! (j div 8)) (j mod 8) \<longleftrightarrow>
         j = i \<or> bit (bm_data bm ! (j div 8)) (j mod 8)"
proof (cases "j div 8 = i div 8")
  case True
  with assms byte_index_in_range [OF assms] show ?thesis
    by (auto simp: bitmap_set_def bit_set_byte index_eq_iff [of j i])
next
  case False
  with assms show ?thesis
    by (auto simp: bitmap_set_def)
qed

lemma raw_bit_reset:
  assumes "bitmap_ok bm" "i < bit_count bm"
  shows "bit (bm_data (bitmap_reset bm i) ! (j div 8)) (j mod 8) \<longleftrightarrow>
         j \<noteq> i \<and> bit (bm_data bm ! (j div 8)) (j mod 8)"
proof (cases "j div 8 = i div 8")
  case True
  with assms byte_index_in_range [OF assms] show ?thesis
    by (auto simp: bitmap_reset_def bit_reset_byte index_eq_iff [of j i])
next
  case False
  with assms show ?thesis
    by (auto simp: bitmap_reset_def)
qed

lemma bitmap_test_set:
  "bitmap_ok bm \<Longrightarrow> i < bit_count bm \<Longrightarrow>
   bitmap_test (bitmap_set bm i) j \<longleftrightarrow> j = i \<or> bitmap_test bm j"
  by (auto simp: bitmap_test_def raw_bit_set)

lemma bitmap_test_reset:
  "bitmap_ok bm \<Longrightarrow> i < bit_count bm \<Longrightarrow>
   bitmap_test (bitmap_reset bm i) j \<longleftrightarrow> j \<noteq> i \<and> bitmap_test bm j"
  by (auto simp: bitmap_test_def raw_bit_reset)

lemma bitmap_ok_set: "bitmap_ok bm \<Longrightarrow> bitmap_ok (bitmap_set bm i)"
proof (cases "i < bit_count bm")
  case True
  assume ok: "bitmap_ok bm"
  have len: "length (bm_data (bitmap_set bm i)) = length (bm_data bm)"
    by (simp add: bitmap_set_def)
  show ?thesis
    unfolding bitmap_ok_def len bit_count_bitmap_set list_all_iff
    using ok True by (auto simp: raw_bit_set) (auto simp: bitmap_ok_def list_all_iff)
next
  case False
  then show "bitmap_ok bm \<Longrightarrow> ?thesis" by (simp add: bitmap_set_def)
qed

lemma bitmap_ok_reset: "bitmap_ok bm \<Longrightarrow> bitmap_ok (bitmap_reset bm i)"
proof (cases "i < bit_count bm")
  case True
  assume ok: "bitmap_ok bm"
  have len: "length (bm_data (bitmap_reset bm i)) = length (bm_data bm)"
    by (simp add: bitmap_reset_def)
  show ?thesis
    unfolding bitmap_ok_def len bit_count_bitmap_reset list_all_iff
    using ok True by (auto simp: raw_bit_reset) (auto simp: bitmap_ok_def list_all_iff)
next
  case False
  then show "bitmap_ok bm \<Longrightarrow> ?thesis" by (simp add: bitmap_reset_def)
qed

lemma bitmap_ok_new: "bitmap_ok (bitmap_new n)"
  by (auto simp: bitmap_ok_def bitmap_new_def list_all_iff)

lemma bitmap_test_new: "\<not> bitmap_test (bitmap_new n) i"
  by (auto simp: bitmap_test_def bitmap_new_def)

lemma popcount_card: "popcount b = card {k. k < 8 \<and> bit b k}"
proof -
  have "set (filter (bit b) [0..<8]) = {k. k < 8 \<and> bit b k}" by auto
  moreover have "distinct (filter (bit b) [0..<8])" by simp
  ultimately show ?thesis
    unfolding popcount_def by (metis distinct_card)
qed

lemma sum_popcount_card:
  "sum_list (map popcount bs) = card {i. i < 8 * length bs \<and> bit (bs ! (i div 8)) (i mod 8)}"
proof (induction bs rule: rev_induct)
  case Nil
  show ?case by simp
next
  case (snoc x bs)
  let ?n = "length bs"
  let ?A = "{i. i < 8 * ?n \<and> bit (bs ! (i div 8)) (i mod 8)}"
  let ?B = "(\<lambda>k. 8 * ?n + k) ` {k. k < 8 \<and> bit x k}"
  have split: "{i. i < 8 * length (bs @ [x]) \<and> bit ((bs @ [x]) ! (i div 8)) (i mod 8)} = ?A \<union> ?B"
  proof (rule set_eqI)
    fix i
    show "i \<in> {i. i < 8 * length (bs @ [x]) \<and> bit ((bs @ [x]) ! (i div 8)) (i mod 8)}
        \<longleftrightarrow> i \<in> ?A \<union> ?B"
    proof (cases "i < 8 * ?n")
      case True
      then have "i div 8 < ?n" by simp
      with True show ?thesis by (auto simp: nth_append)
    next
      case False
      show ?thesis
      proof (cases "i < 8 * ?n + 8")
        case True
        with False have d: "i div 8 = ?n" by simp
        from False True have m: "i = 8 * ?n + i mod 8"
          using d by (metis div_mult_mod_eq mult.commute)
        have lt: "i mod 8 < 8" by simp
        show ?thesis
        proof
          assume "i \<in> {i. i < 8 * length (bs @ [x]) \<and> bit ((bs @ [x]) ! (i div 8)) (i mod 8)}"
          then have "bit x (i mod 8)" using d by (simp add: nth_append)
          with m lt have "i \<in> ?B" by blast
          then show "i \<in> ?A \<union> ?B" by simp
        next
          assume "i \<in> ?A \<union> ?B"
          with False have "i \<in> ?B" by simp
          then obtain k where k: "k < 8" "bit x k" "i = 8 * ?n + k" by auto
          then have "i mod 8 = k" by simp
          with k d True show "i \<in> {i. i < 8 * length (bs @ [x]) \<and> bit ((bs @ [x]) ! (i div 8)) (i mod 8)}"
            by (simp add: nth_append)
        qed
      next
        case False
        then show ?thesis by auto
      qed
    qed
  qed
  have disj: "?A \<inter> ?B = {}" by auto
  have finA: "finite ?A" by simp
  have finB: "finite ?B" by simp
  have "card ?B = card {k. k < 8 \<and> bit x k}"
    by (rule card_image) (simp add: inj_on_def)
  then have "card (?A \<union> ?B) = card ?A + popcount x"
    using card_Un_disjoint [OF finA finB disj] by (simp add: popcount_card)
  with snoc.IH show ?case
    unfolding split by simp
qed

lemma bitmap_total_set_card:
  assumes "bitmap_ok bm"
  shows "bitmap_total_set bm = card {i. bitmap_test bm i}"
proof -
  have "{i. i < 8 * length (bm_data bm) \<and> bit (bm_data bm ! (i div 8)) (i mod 8)}
      = {i. bitmap_test bm i}"
  proof (rule set_eqI)
    fix i
    have le: "bit_count bm \<le> 8 * length (bm_data bm)"
      using assms by (simp add: bitmap_ok_def)
    have pad: "bit_count bm \<le> i \<Longrightarrow> i < 8 * length (bm_data bm) \<Longrightarrow>
        \<not> bit (bm_data bm ! (i div 8)) (i mod 8)"
      using assms by (simp add: bitmap_ok_def list_all_iff)
    show "i \<in> {i. i < 8 * length (bm_data bm) \<and> bit (bm_data bm ! (i div 8)) (i mod 8)}
        \<longleftrightarrow> i \<in> {i. bitmap_test bm i}"
      using le pad by (cases "i < bit_count bm") (auto simp: bitmap_test_def)
  qed
  then show ?thesis
    by (simp add: bitmap_total_set_def sum_popcount_card)
qed

lemma bitmap_test_less: "bitmap_test bm i \<Longrightarrow> i < bit_count bm"
  by (simp add: bitmap_test_def)

lemma bitmap_total_set_le:
  assumes "bitmap_ok bm"
  shows "bitmap_total_set bm \<le> bit_count bm"
proof -
  have "{i. bitmap_test bm i} \<subseteq> {..<bit_count bm}"
    by (auto dest: bitmap_test_less)
  then have "card {i. bitmap_test bm i} \<le> card {..<bit_count bm}"
    by (intro card_mono) auto
  then show ?thesis by (simp add: bitmap_total_set_card [OF assms])
qed

section \<open>Properties of allocation\<close>

lemma unat_of_nat_below:
  "m < unat (n :: size_t) \<Longrightarrow> unat (of_nat m :: size_t) = m"
  by (metis le_unat_uoi less_imp_le_nat)

lemma of_nat_below_less:
  "m < unat (n :: size_t) \<Longrightarrow> (of_nat m :: size_t) < n"
  by (simp add: word_less_nat_alt unat_of_nat_below)

lemma allocate_from_finds:
  assumes "m < block_store_get_total_blocks cfg"
    and "\<not> reserved cfg m" and "\<not> bitmap_test bm (unat m)"
    and "i \<le> m"
    and "\<And>j. i \<le> j \<Longrightarrow> j < m \<Longrightarrow> reserved cfg j \<or> bitmap_test bm (unat j)"
  shows "allocate_from cfg bm i = (m, bitmap_set bm (unat m))"
  using assms
proof (induction cfg bm i rule: allocate_from.induct)
  case (1 cfg bm i)
  have lt: "i < block_store_get_total_blocks cfg"
    using "1.prems"(1,4) by simp
  show ?case
  proof (cases "i = m")
    case True
    with "1.prems" lt show ?thesis
      by (subst allocate_from.simps) (auto simp: reserved_def)
  next
    case False
    with "1.prems"(4) have im: "i < m" by simp
    then have next_le: "i + 1 \<le> m" by (rule inc_le)
    have below: "\<And>j. i + 1 \<le> j \<Longrightarrow> j < m \<Longrightarrow> reserved cfg j \<or> bitmap_test bm (unat j)"
    proof -
      fix j assume "i + 1 \<le> j" "j < m"
      moreover from this im have "i \<le> j" by unat_arith
      ultimately show "reserved cfg j \<or> bitmap_test bm (unat j)"
        using "1.prems"(5) by blast
    qed
    from "1.prems"(5) [of i] im have here: "reserved cfg i \<or> bitmap_test bm (unat i)" by simp
    show ?thesis
    proof (cases "reserved cfg i")
      case True
      then have "allocate_from cfg bm i = allocate_from cfg bm (i + 1)"
        using lt by (subst allocate_from.simps) (auto simp: reserved_def)
      also have "\<dots> = (m, bitmap_set bm (unat m))"
        using "1.IH"(1) lt True "1.prems"(1,2,3) next_le below
        by (simp add: reserved_def)
      finally show ?thesis .
    next
      case False
      with here have t: "bitmap_test bm (unat i)" by simp
      have "allocate_from cfg bm i = allocate_from cfg bm (i + 1)"
        using lt False t by (subst allocate_from.simps) (auto simp: reserved_def)
      also have "\<dots> = (m, bitmap_set bm (unat m))"
        using "1.IH"(2) lt False t "1.prems"(1,2,3) next_le below
        by (simp add: reserved_def)
      finally show ?thesis .
    qed
  qed
qed

lemma allocate_from_full:
  assumes "\<And>j. i \<le> j \<Longrightarrow> j < block_store_get_total_blocks cfg \<Longrightarrow>
             reserved cfg j \<or> bitmap_test bm (unat j)"
  shows "allocate_from cfg bm i = (SIZE_MAX, bm)"
  using assms
proof (induction cfg bm i rule: allocate_from.induct)
  case (1 cfg bm i)
  show ?case
  proof (cases "i < block_store_get_total_blocks cfg")
    case False
    then show ?thesis by (subst allocate_from.simps) simp
  next
    case lt: True
    have below: "\<And>j. i + 1 \<le> j \<Longrightarrow> j < block_store_get_total_blocks cfg \<Longrightarrow>
        reserved cfg j \<or> bitmap_test bm (unat j)"
    proof -
      fix j assume "i + 1 \<le> j" "j < block_store_get_total_blocks cfg"
      moreover from this lt have "i \<le> j" by unat_arith
      ultimately show "reserved cfg j \<or> bitmap_test bm (unat j)"
        using "1.prems" by blast
    qed
    from "1.prems" [of i] lt have here: "reserved cfg i \<or> bitmap_test bm (unat i)" by simp
    show ?thesis
    proof (cases "reserved cfg i")
      case True
      then have "allocate_from cfg bm i = allocate_from cfg bm (i + 1)"
        using lt by (subst allocate_from.simps) (auto simp: reserved_def)
      also have "\<dots> = (SIZE_MAX, bm)"
        using "1.IH"(1) lt True below by (simp add: reserved_def)
      finally show ?thesis .
    next
      case False
      with here have t: "bitmap_test bm (unat i)" by simp
      have "allocate_from cfg bm i = allocate_from cfg bm (i + 1)"
        using lt False t by (subst allocate_from.simps) (auto simp: reserved_def)
      also have "\<dots> = (SIZE_MAX, bm)"
        using "1.IH"(2) lt False t below by (simp add: reserved_def)
      finally show ?thesis .
    qed
  qed
qed

lemma block_store_allocate_Some:
  "block_store_allocate cfg (Some s) =
     (case bitmap s of None \<Rightarrow> (SIZE_MAX, Some s)
      | Some bm \<Rightarrow> (fst (allocate_from cfg bm 0), Some (s\<lparr>bitmap := Some (snd (allocate_from cfg bm 0))\<rparr>)))"
  by (simp add: block_store_allocate_def split: option.splits prod.splits)

lemma allocate_times_from:
  assumes "m \<le> unat (block_store_get_total_blocks cfg)" and "filled_below cfg m bm"
    and "bitmap s = Some bm"
  shows "allocate_times cfg (Some s)
           (Suc (length (filter (\<lambda>i. \<not> reserved cfg i)
              (map of_nat [m..<unat (block_store_get_total_blocks cfg)]))))
         = filter (\<lambda>i. \<not> reserved cfg i)
              (map of_nat [m..<unat (block_store_get_total_blocks cfg)]) @ [SIZE_MAX]"
  using assms
proof (induction "unat (block_store_get_total_blocks cfg) - m" arbitrary: m bm s)
  case 0
  then have m: "m = unat (block_store_get_total_blocks cfg)" by simp
  have "allocate_from cfg bm 0 = (SIZE_MAX, bm)"
  proof (rule allocate_from_full)
    fix j :: size_t
    assume "j < block_store_get_total_blocks cfg"
    then have "unat j < unat (block_store_get_total_blocks cfg)"
      by (simp add: word_less_nat_alt)
    moreover have "(of_nat (unat j) :: size_t) = j" by simp
    moreover have "\<forall>j < unat (block_store_get_total_blocks cfg).
        \<not> reserved cfg (of_nat j) \<longrightarrow> (bitmap_test bm j \<longleftrightarrow> j < m)"
      using "0.prems"(2) by (simp add: filled_below_def)
    ultimately show "reserved cfg j \<or> bitmap_test bm (unat j)"
      using m by metis
  qed
  with m "0.prems"(3) show ?case
    by (simp add: block_store_allocate_Some)
next
  case (Suc k)
  let ?N = "block_store_get_total_blocks cfg"
  from Suc.hyps(2) have lt: "m < unat ?N" by simp
  have upt: "[m..<unat ?N] = m # [Suc m..<unat ?N]"
    using lt by (simp add: upt_conv_Cons)
  have k: "k = unat ?N - Suc m" using Suc.hyps(2) by simp
  have ok: "bitmap_ok bm" and cnt: "bit_count bm = unat ?N"
    using Suc.prems(2) by (simp_all add: filled_below_def)
  have um: "unat (of_nat m :: size_t) = m"
    using lt by (rule unat_of_nat_below)
  show ?case
  proof (cases "reserved cfg (of_nat m)")
    case True
    have "filled_below cfg (Suc m) bm"
      unfolding filled_below_def
    proof (intro conjI allI impI)
      fix j assume "j < unat ?N" "\<not> reserved cfg (of_nat j)"
      with True have "j \<noteq> m" by auto
      with Suc.prems(2) \<open>j < unat ?N\<close> \<open>\<not> reserved cfg (of_nat j)\<close>
      show "bitmap_test bm j \<longleftrightarrow> j < Suc m"
        by (auto simp: filled_below_def)
    qed (rule ok, rule cnt)
    from Suc.hyps(1) [OF k _ this Suc.prems(3)] lt True show ?thesis
      by (simp add: upt)
  next
    case False
    have "allocate_from cfg bm 0 = (of_nat m, bitmap_set bm (unat (of_nat m :: size_t)))"
    proof (rule allocate_from_finds)
      show "of_nat m < ?N" using lt by (rule of_nat_below_less)
      show "\<not> reserved cfg (of_nat m)" by (rule False)
      show "\<not> bitmap_test bm (unat (of_nat m :: size_t))"
        using Suc.prems(2) lt False by (auto simp: filled_below_def um)
      show "0 \<le> (of_nat m :: size_t)" by simp
    next
      fix j :: size_t
      assume "j < of_nat m"
      then have "unat j < m" by (simp add: word_less_nat_alt um)
      moreover have "(of_nat (unat j) :: size_t) = j" by simp
      moreover have "\<forall>j < unat ?N. \<not> reserved cfg (of_nat j) \<longrightarrow> (bitmap_test bm j \<longleftrightarrow> j < m)"
        using Suc.prems(2) by (simp add: filled_below_def)
      ultimately show "reserved cfg j \<or> bitmap_test bm (unat j)"
        using lt by (metis less_trans)
    qed
    then have step: "block_store_allocate cfg (Some s)
        = (of_nat m, Some (s\<lparr>bitmap := Some (bitmap_set bm m)\<rparr>))"
      using Suc.prems(3) by (simp add: block_store_allocate_Some um)
    have "filled_below cfg (Suc m) (bitmap_set bm m)"
      unfolding filled_below_def
    proof (intro conjI allI impI)
      show "bitmap_ok (bitmap_set bm m)" using ok by (rule bitmap_ok_set)
      show "bit_count (bitmap_set bm m) = unat ?N" using cnt by simp
    next
      fix j assume "j < unat ?N" "\<not> reserved cfg (of_nat j)"
      with Suc.prems(2) have "bitmap_test bm j \<longleftrightarrow> j < m"
        by (simp add: filled_below_def)
      then show "bitmap_test (bitmap_set bm m) j \<longleftrightarrow> j < Suc m"
        using ok lt cnt by (auto simp: bitmap_test_set)
    qed
    from Suc.hyps(1) [OF k _ this, of "s\<lparr>bitmap := Some (bitmap_set bm m)\<rparr>"] lt False show ?thesis
      by (simp add: upt step)
  qed
qed

lemma calloc_block_store_result:
  "calloc_block_store cfg ans w = (Some s, w') \<Longrightarrow>
   s = \<lparr>bitmap = None, data = replicate (unat (BLOCK_STORE_NUM_BYTES cfg)) 0\<rparr>"
  by (auto simp: calloc_block_store_def split: if_splits)

lemma bitmap_create_result:
  "bitmap_create ans w n = (Some bm, w') \<Longrightarrow> bm = bitmap_new n"
  by (auto simp: bitmap_create_def split: if_splits)

lemma block_store_create_result:
  assumes "block_store_create cfg ans w = (Some s, w')"
  shows "s = \<lparr>bitmap = Some (bitmap_new (unat (BLOCK_STORE_NUM_BLOCKS cfg))),
              data = replicate (unat (BLOCK_STORE_NUM_BYTES cfg)) 0\<rparr>"
  using assms
  by (auto simp: block_store_create_def split: prod.splits option.splits
      dest!: calloc_block_store_result bitmap_create_result)

lemma bit_count_new [simp]: "bit_count (bitmap_new n) = n"
  by (simp add: bitmap_new_def)

lemma filled_below_new:
  "filled_below cfg 0 (bitmap_new (unat (BLOCK_STORE_NUM_BLOCKS cfg)))"
  by (simp add: filled_below_def bitmap_ok_new bitmap_test_new block_store_get_total_blocks_def)

lemma unreserved_ids_set:
  "set (unreserved_ids cfg) = {i. i < block_store_get_total_blocks cfg \<and> \<not> reserved cfg i}"
proof -
  have "of_nat ` {0..<unat (block_store_get_total_blocks cfg)}
      = {i. i < block_store_get_total_blocks cfg}"
  proof (rule set_eqI)
    fix i :: size_t
    show "i \<in> of_nat ` {0..<unat (block_store_get_total_blocks cfg)}
        \<longleftrightarrow> i \<in> {i. i < block_store_get_total_blocks cfg}"
    proof
      assume "i \<in> of_nat ` {0..<unat (block_store_get_total_blocks cfg)}"
      then show "i \<in> {i. i < block_store_get_total_blocks cfg}"
        by (auto intro: of_nat_below_less)
    next
      assume "i \<in> {i. i < block_store_get_total_blocks cfg}"
      then have "unat i < unat (block_store_get_total_blocks cfg)"
        by (simp add: word_less_nat_alt)
      then have "(of_nat (unat i) :: size_t) \<in> of_nat ` {0..<unat (block_store_get_total_blocks cfg)}"
        by (intro imageI) simp
      then show "i \<in> of_nat ` {0..<unat (block_store_get_total_blocks cfg)}" by simp
    qed
  qed
  then show ?thesis by (auto simp: unreserved_ids_def)
qed

lemma unreserved_ids_ascending: "sorted_wrt (<) (unreserved_ids cfg)"
proof -
  have "sorted_wrt (\<lambda>a b. (of_nat a :: size_t) < of_nat b)
          [0..<unat (block_store_get_total_blocks cfg)]"
  proof (rule sorted_wrt_mono_rel [rotated, OF sorted_wrt_upt])
    fix a b
    assume "a \<in> set [0..<unat (block_store_get_total_blocks cfg)]"
      "b \<in> set [0..<unat (block_store_get_total_blocks cfg)]" "a < b"
    then have a: "a < unat (block_store_get_total_blocks cfg)"
      and b: "b < unat (block_store_get_total_blocks cfg)" and ab: "a < b" by simp_all
    show "(of_nat a :: size_t) < of_nat b"
      using ab by (simp add: word_less_nat_alt unat_of_nat_below [OF a] unat_of_nat_below [OF b])
  qed
  then have "sorted_wrt (<) (map of_nat [0..<unat (block_store_get_total_blocks cfg)] :: size_t list)"
    by (simp add: sorted_wrt_map)
  then show ?thesis
    unfolding unreserved_ids_def by (rule sorted_wrt_filter)
qed

section \<open>Exhaustive first-fit allocation\<close>

lemma small_create:
  "block_store_create small_config all_ok empty_world
     = (Some small_store, empty_world\<lparr>heap_objects := 2\<rparr>)"
  by (simp add: block_store_create_def calloc_block_store_def bitmap_create_def small_config_def
      all_ok_def empty_world_def small_store_def)

text \<open>
  C1. From a freshly created store, successive calls of \<open>block_store_allocate\<close> return
  the block indices in \<open>[0, N)\<close> outside the reserved range, each once and in ascending
  order, and the call after the last of them returns \<open>SIZE_MAX\<close>.
\<close>

theorem allocate_exhaustive_first_fit:
  assumes "block_store_create cfg ans w = (Some s, w')"
  shows "allocate_times cfg (Some s) (Suc (length (unreserved_ids cfg)))
           = unreserved_ids cfg @ [SIZE_MAX]
       \<and> sorted_wrt (<) (unreserved_ids cfg)
       \<and> set (unreserved_ids cfg)
           = {i. i < block_store_get_total_blocks cfg \<and> \<not> reserved cfg i}"
proof -
  from assms have s: "bitmap s = Some (bitmap_new (unat (BLOCK_STORE_NUM_BLOCKS cfg)))"
    by (auto dest: block_store_create_result)
  have "allocate_times cfg (Some s) (Suc (length (unreserved_ids cfg)))
      = unreserved_ids cfg @ [SIZE_MAX]"
    unfolding unreserved_ids_def
    by (rule allocate_times_from [OF _ filled_below_new s]) simp
  then show ?thesis
    by (simp add: unreserved_ids_ascending unreserved_ids_set)
qed

theorem allocate_exhaustive_first_fit_witness:
  "block_store_create small_config all_ok empty_world
     = (Some small_store, empty_world\<lparr>heap_objects := 2\<rparr>)
   \<and> allocate_times small_config (Some small_store) 15
     = [2, 3, 4, 5, 6, 7, 8, 9, 10, 11, 12, 13, 14, 15, SIZE_MAX]"
proof -
  have ids: "unreserved_ids small_config = [2, 3, 4, 5, 6, 7, 8, 9, 10, 11, 12, 13, 14, 15]"
    by code_simp
  have n: "Suc (length (unreserved_ids small_config)) = 15"
    by (simp add: ids)
  from allocate_exhaustive_first_fit [OF small_create]
  have "allocate_times small_config (Some small_store) (Suc (length (unreserved_ids small_config)))
      = unreserved_ids small_config @ [SIZE_MAX]"
    by (rule conjunct1)
  then have "allocate_times small_config (Some small_store) 15
      = unreserved_ids small_config @ [SIZE_MAX]"
    by (simp only: n)
  then show ?thesis
    by (simp del: allocate_times.simps add: ids small_create)
qed

text \<open>
  The draft of \<open>src/block_store.c\<close> does not have this property: without the test for
  the reserved range its first allocation on a fresh store returns block 0, which the
  small configuration reserves.
\<close>

lemma draft_allocate_returns_reserved:
  "reserved small_config 0
   \<and> block_store_allocate_draft small_config (Some small_store)
       = Some (0, Some (small_store\<lparr>bitmap := Some (bitmap_set (bitmap_new 16) 0)\<rparr>))"
proof -
  have "allocate_from_draft small_config (bitmap_new 16) 0 = (0, bitmap_set (bitmap_new 16) 0)"
    by (subst allocate_from_draft.simps) (simp add: small_config_def bitmap_test_new)
  then show ?thesis
    by (simp add: block_store_allocate_draft_def small_store_def reserved_def small_config_def)
qed

section \<open>Counters and sequences of calls\<close>

lemma allocate_from_bitmap:
  "snd (allocate_from cfg bm i) = bm \<or> (\<exists>m. snd (allocate_from cfg bm i) = bitmap_set bm m)"
proof (induction cfg bm i rule: allocate_from.induct)
  case (1 cfg bm i)
  then show ?case
    by (subst (1 2) allocate_from.simps) auto
qed

lemma allocate_from_ok:
  "bitmap_ok bm \<Longrightarrow> bitmap_ok (snd (allocate_from cfg bm i))"
  using allocate_from_bitmap [of cfg bm i] by (auto simp: bitmap_ok_set)

lemma allocate_from_bit_count [simp]:
  "bit_count (snd (allocate_from cfg bm i)) = bit_count bm"
  using allocate_from_bitmap [of cfg bm i] by auto

lemma store_ok_allocate:
  "store_ok cfg s \<Longrightarrow> \<exists>s'. snd (block_store_allocate cfg (Some s)) = Some s' \<and> store_ok cfg s'"
  by (auto simp: store_ok_def block_store_allocate_Some allocate_from_ok split: option.splits)

lemma store_ok_request:
  "store_ok cfg s \<Longrightarrow> \<exists>s'. snd (block_store_request cfg (Some s) i) = Some s' \<and> store_ok cfg s'"
  by (auto simp: store_ok_def block_store_request_def bitmap_ok_set split: option.splits)

lemma store_ok_release:
  "store_ok cfg s \<Longrightarrow> \<exists>s'. block_store_release cfg (Some s) i = Some s' \<and> store_ok cfg s'"
  by (auto simp: store_ok_def block_store_release_def bitmap_ok_reset split: option.splits)

lemma store_ok_apply_call:
  "store_ok cfg s \<Longrightarrow> \<exists>s'. apply_call cfg (Some s) c = Some s' \<and> store_ok cfg s'"
  by (cases c) (simp_all add: store_ok_allocate store_ok_request store_ok_release)

lemma store_ok_run_calls:
  "store_ok cfg s \<Longrightarrow> \<exists>s'. run_calls cfg (Some s) cs = Some s' \<and> store_ok cfg s'"
proof (induction cs arbitrary: s)
  case Nil
  then show ?case by (simp add: run_calls_def)
next
  case (Cons c cs)
  from store_ok_apply_call [OF Cons.prems, of c]
  obtain s1 where s1: "apply_call cfg (Some s) c = Some s1" "store_ok cfg s1" by blast
  from Cons.IH [OF s1(2)] s1(1) show ?case by (simp add: run_calls_def)
qed

lemma store_ok_small_store: "store_ok small_config small_store"
  by (simp add: store_ok_def small_store_def small_config_def bitmap_ok_new)



section \<open>Used count, request and release\<close>

text \<open>
  C3. On a valid store \<open>block_store_get_used_blocks\<close> returns the number of set bits of
  the bitmap plus \<open>BITMAP_NUM_BLOCKS\<close>, whatever the bits of the reserved range are; it
  returns \<open>SIZE_MAX\<close> for a NULL store and for a store without bitmap.
\<close>

theorem used_blocks_value:
  assumes "bitmap s = Some bm" and "bitmap_ok bm"
  shows "block_store_get_used_blocks cfg (Some s)
           = of_nat (card {i. bitmap_test bm i}) + BITMAP_NUM_BLOCKS cfg
       \<and> block_store_get_used_blocks cfg None = SIZE_MAX
       \<and> block_store_get_used_blocks cfg (Some (s\<lparr>bitmap := None\<rparr>)) = SIZE_MAX"
  using assms
  by (simp add: block_store_get_used_blocks_def bitmap_total_set_card)

theorem used_blocks_value_witness:
  "bitmap (small_store\<lparr>bitmap := Some (bitmap_set (bitmap_set (bitmap_new 16) 0) 5)\<rparr>)
     = Some (bitmap_set (bitmap_set (bitmap_new 16) 0) 5)
   \<and> bitmap_ok (bitmap_set (bitmap_set (bitmap_new 16) 0) 5)
   \<and> {i. bitmap_test (bitmap_set (bitmap_set (bitmap_new 16) 0) 5) i} = {0, 5}
   \<and> block_store_get_used_blocks small_config
        (Some (small_store\<lparr>bitmap := Some (bitmap_set (bitmap_set (bitmap_new 16) 0) 5)\<rparr>)) = 4"
proof -
  let ?bm = "bitmap_set (bitmap_set (bitmap_new 16) 0) 5"
  have ok: "bitmap_ok ?bm"
    by (intro bitmap_ok_set bitmap_ok_new)
  have b: "bitmap (small_store\<lparr>bitmap := Some ?bm\<rparr>) = Some ?bm" by simp
  have bits: "{i. bitmap_test ?bm i} = {0, 5}"
    by (auto simp: bitmap_test_set bitmap_ok_set bitmap_ok_new bitmap_test_new)
  from used_blocks_value [OF b ok, of small_config]
  have "block_store_get_used_blocks small_config (Some (small_store\<lparr>bitmap := Some ?bm\<rparr>))
      = of_nat (card {i. bitmap_test ?bm i}) + BITMAP_NUM_BLOCKS small_config"
    by (rule conjunct1)
  also have "\<dots> = 4" by (simp add: bits small_config_def)
  finally show ?thesis using ok bits by simp
qed

text \<open>
  C4. \<open>block_store_request\<close> succeeds exactly when the store and its bitmap are not NULL,
  the id is below the block count and the block is free; it then sets that bit and no
  other. Otherwise it fails and changes nothing. An id in the reserved range is treated
  as any other.
\<close>

theorem request_succeeds_iff:
  "(fst (block_store_request cfg bs block_id) \<longleftrightarrow>
      (\<exists>s bm. bs = Some s \<and> bitmap s = Some bm \<and> block_id < block_store_get_total_blocks cfg
         \<and> \<not> bitmap_test bm (unat block_id)))
   \<and> (\<forall>s bm. bs = Some s \<and> bitmap s = Some bm \<and> fst (block_store_request cfg bs block_id) \<longrightarrow>
         snd (block_store_request cfg bs block_id)
           = Some (s\<lparr>bitmap := Some (bitmap_set bm (unat block_id))\<rparr>)
         \<and> (store_ok cfg s \<longrightarrow>
              (\<forall>j. bitmap_test (bitmap_set bm (unat block_id)) j \<longleftrightarrow>
                     j = unat block_id \<or> bitmap_test bm j)))
   \<and> (\<not> fst (block_store_request cfg bs block_id) \<longrightarrow>
         snd (block_store_request cfg bs block_id) = bs)
   \<and> (\<forall>s bm. bs = Some s \<and> bitmap s = Some bm \<and> reserved cfg block_id
         \<and> block_id < block_store_get_total_blocks cfg \<and> \<not> bitmap_test bm (unat block_id) \<longrightarrow>
         fst (block_store_request cfg bs block_id))"
proof (intro conjI allI impI)
  show "fst (block_store_request cfg bs block_id) \<longleftrightarrow>
      (\<exists>s bm. bs = Some s \<and> bitmap s = Some bm \<and> block_id < block_store_get_total_blocks cfg
         \<and> \<not> bitmap_test bm (unat block_id))"
    by (auto simp: block_store_request_def split: option.splits)
next
  fix s bm
  assume "bs = Some s \<and> bitmap s = Some bm \<and> fst (block_store_request cfg bs block_id)"
  then show "snd (block_store_request cfg bs block_id)
           = Some (s\<lparr>bitmap := Some (bitmap_set bm (unat block_id))\<rparr>)"
    by (auto simp: block_store_request_def split: if_splits)
next
  fix s bm j
  assume a: "bs = Some s \<and> bitmap s = Some bm \<and> fst (block_store_request cfg bs block_id)"
    and ok: "store_ok cfg s"
  from a have "block_id < block_store_get_total_blocks cfg"
    by (auto simp: block_store_request_def split: if_splits)
  then have "unat block_id < unat (BLOCK_STORE_NUM_BLOCKS cfg)"
    by (simp add: word_less_nat_alt block_store_get_total_blocks_def)
  with a ok show "bitmap_test (bitmap_set bm (unat block_id)) j \<longleftrightarrow>
      j = unat block_id \<or> bitmap_test bm j"
    by (intro bitmap_test_set) (auto simp: store_ok_def)
next
  assume "\<not> fst (block_store_request cfg bs block_id)"
  then show "snd (block_store_request cfg bs block_id) = bs"
    by (auto simp: block_store_request_def split: option.splits if_splits)
next
  fix s bm
  assume "bs = Some s \<and> bitmap s = Some bm \<and> reserved cfg block_id
         \<and> block_id < block_store_get_total_blocks cfg \<and> \<not> bitmap_test bm (unat block_id)"
  then show "fst (block_store_request cfg bs block_id)"
    by (auto simp: block_store_request_def)
qed

theorem request_succeeds_iff_witness:
  "reserved small_config 0
   \<and> block_store_request small_config (Some small_store) 0
       = (True, Some (small_store\<lparr>bitmap := Some (bitmap_set (bitmap_new 16) 0)\<rparr>))
   \<and> block_store_request small_config
        (Some (small_store\<lparr>bitmap := Some (bitmap_set (bitmap_new 16) 0)\<rparr>)) 0
       = (False, Some (small_store\<lparr>bitmap := Some (bitmap_set (bitmap_new 16) 0)\<rparr>))
   \<and> block_store_request small_config (Some small_store) 16 = (False, Some small_store)"
proof -
  have r: "reserved small_config 0"
    by (simp add: reserved_def small_config_def)
  have b: "bitmap small_store = Some (bitmap_new 16)"
    by (simp add: small_store_def)
  have lt: "(0 :: size_t) < block_store_get_total_blocks small_config"
    by (simp add: block_store_get_total_blocks_def small_config_def)
  have ge: "\<not> (16 :: size_t) < block_store_get_total_blocks small_config"
    by (simp add: block_store_get_total_blocks_def small_config_def)
  let ?s1 = "small_store\<lparr>bitmap := Some (bitmap_set (bitmap_new 16) 0)\<rparr>"
  have t1: "bitmap_test (bitmap_set (bitmap_new 16) 0) 0"
    by (simp add: bitmap_test_set bitmap_ok_new)
  note first = request_succeeds_iff [of small_config "Some small_store" 0]
  note again = request_succeeds_iff [of small_config "Some ?s1" 0]
  note past = request_succeeds_iff [of small_config "Some small_store" 16]
  have f1: "fst (block_store_request small_config (Some small_store) 0)"
    using first r b lt by (simp add: bitmap_test_new)
  have s1: "snd (block_store_request small_config (Some small_store) 0) = Some ?s1"
    using first f1 b by simp
  have f2: "\<not> fst (block_store_request small_config (Some ?s1) 0)"
    using again t1 by simp
  have s2: "snd (block_store_request small_config (Some ?s1) 0) = Some ?s1"
    using again f2 by blast
  have f3: "\<not> fst (block_store_request small_config (Some small_store) 16)"
    using past ge by simp
  have s3: "snd (block_store_request small_config (Some small_store) 16) = Some small_store"
    using past f3 by blast
  show ?thesis
    using r f1 s1 f2 s2 f3 s3 by (simp add: prod_eq_iff)
qed

text \<open>
  C5. \<open>block_store_release\<close> clears the bit of a block that is marked used, when the
  store and its bitmap are not NULL and the id is below the block count, and clears no
  other bit. In every other case it returns the store as it was, so the free count after
  releasing a block that is not allocated is the free count before.
\<close>

theorem release_clears_or_nothing:
  "(\<forall>s bm. bs = Some s \<and> bitmap s = Some bm \<and> block_id < block_store_get_total_blocks cfg
        \<and> bitmap_test bm (unat block_id) \<longrightarrow>
        block_store_release cfg bs block_id
          = Some (s\<lparr>bitmap := Some (bitmap_reset bm (unat block_id))\<rparr>)
        \<and> (store_ok cfg s \<longrightarrow>
             (\<forall>j. bitmap_test (bitmap_reset bm (unat block_id)) j \<longleftrightarrow>
                    j \<noteq> unat block_id \<and> bitmap_test bm j)))
   \<and> (\<not> (\<exists>s bm. bs = Some s \<and> bitmap s = Some bm
           \<and> block_id < block_store_get_total_blocks cfg \<and> bitmap_test bm (unat block_id)) \<longrightarrow>
        block_store_release cfg bs block_id = bs
        \<and> block_store_get_free_blocks cfg (block_store_release cfg bs block_id)
            = block_store_get_free_blocks cfg bs)"
proof (intro conjI allI impI)
  fix s bm
  assume "bs = Some s \<and> bitmap s = Some bm \<and> block_id < block_store_get_total_blocks cfg
        \<and> bitmap_test bm (unat block_id)"
  then show "block_store_release cfg bs block_id
          = Some (s\<lparr>bitmap := Some (bitmap_reset bm (unat block_id))\<rparr>)"
    by (simp add: block_store_release_def)
next
  fix s bm j
  assume a: "bs = Some s \<and> bitmap s = Some bm \<and> block_id < block_store_get_total_blocks cfg
        \<and> bitmap_test bm (unat block_id)"
    and ok: "store_ok cfg s"
  from a have "unat block_id < bit_count bm"
    by (simp add: bitmap_test_less)
  with a ok show "bitmap_test (bitmap_reset bm (unat block_id)) j \<longleftrightarrow>
      j \<noteq> unat block_id \<and> bitmap_test bm j"
    by (intro bitmap_test_reset) (auto simp: store_ok_def)
next
  assume n: "\<not> (\<exists>s bm. bs = Some s \<and> bitmap s = Some bm
           \<and> block_id < block_store_get_total_blocks cfg \<and> bitmap_test bm (unat block_id))"
  then show same: "block_store_release cfg bs block_id = bs"
    by (auto simp: block_store_release_def split: option.splits)
  then show "block_store_get_free_blocks cfg (block_store_release cfg bs block_id)
            = block_store_get_free_blocks cfg bs"
    by simp
qed

theorem release_clears_or_nothing_witness:
  "block_store_release small_config
      (Some (small_store\<lparr>bitmap := Some (bitmap_set (bitmap_new 16) 3)\<rparr>)) 3
     = Some (small_store\<lparr>bitmap := Some (bitmap_reset (bitmap_set (bitmap_new 16) 3) 3)\<rparr>)
   \<and> \<not> bitmap_test (bitmap_reset (bitmap_set (bitmap_new 16) 3) 3) 3
   \<and> block_store_release small_config (Some small_store) 3 = Some small_store
   \<and> block_store_release small_config (Some small_store) 16 = Some small_store
   \<and> block_store_release small_config None 3 = None
   \<and> block_store_get_free_blocks small_config
        (block_store_release small_config (Some small_store) 3) = 14"
proof -
  let ?bm = "bitmap_set (bitmap_new 16) 3"
  let ?s1 = "small_store\<lparr>bitmap := Some ?bm\<rparr>"
  have b: "bitmap small_store = Some (bitmap_new 16)"
    by (simp add: small_store_def)
  have lt: "(3 :: size_t) < block_store_get_total_blocks small_config"
    by (simp add: block_store_get_total_blocks_def small_config_def)
  have ge: "\<not> (16 :: size_t) < block_store_get_total_blocks small_config"
    by (simp add: block_store_get_total_blocks_def small_config_def)
  have t: "bitmap_test ?bm 3"
    by (simp add: bitmap_test_set bitmap_ok_new)
  have ok1: "store_ok small_config ?s1"
    by (simp add: store_ok_def small_store_def small_config_def bitmap_ok_set bitmap_ok_new)
  have free0: "block_store_get_free_blocks small_config (Some small_store) = 14"
    by (simp add: block_store_get_free_blocks_def block_store_get_used_blocks_def b
        bitmap_total_set_card bitmap_ok_new bitmap_test_new
        block_store_get_total_blocks_def small_config_def)
  note used = release_clears_or_nothing [where bs = "Some ?s1" and cfg = small_config and block_id = 3]
  note unused = release_clears_or_nothing [where bs = "Some small_store" and cfg = small_config and block_id = 3]
  note past = release_clears_or_nothing [where bs = "Some small_store" and cfg = small_config and block_id = 16]
  note null = release_clears_or_nothing [where bs = None and cfg = small_config and block_id = 3]
  have r1: "block_store_release small_config (Some ?s1) 3
      = Some (small_store\<lparr>bitmap := Some (bitmap_reset ?bm 3)\<rparr>)"
    using used lt t by simp
  have c1: "\<not> bitmap_test (bitmap_reset ?bm 3) 3"
    using used lt t ok1 by simp
  have r2: "block_store_release small_config (Some small_store) 3 = Some small_store"
    using unused b by (simp add: bitmap_test_new)
  have r3: "block_store_release small_config (Some small_store) 16 = Some small_store"
    using past ge by simp
  have r4: "block_store_release small_config None 3 = None"
    using null by simp
  have f: "block_store_get_free_blocks small_config
      (block_store_release small_config (Some small_store) 3) = 14"
    using unused b free0 by (simp add: bitmap_test_new)
  show ?thesis
    using r1 c1 r2 r3 r4 f by simp
qed

section \<open>Block input and output\<close>

lemma block_offset:
  assumes "config_ok cfg" and "block_id < block_store_get_total_blocks cfg"
  shows "unat (block_id * BLOCK_SIZE_BYTES cfg) = unat block_id * unat (BLOCK_SIZE_BYTES cfg)"
    and "unat block_id * unat (BLOCK_SIZE_BYTES cfg) + unat (BLOCK_SIZE_BYTES cfg)
          \<le> unat (BLOCK_STORE_NUM_BYTES cfg)"
proof -
  let ?N = "unat (BLOCK_STORE_NUM_BLOCKS cfg)" and ?B = "unat (BLOCK_SIZE_BYTES cfg)"
  from assms(2) have "Suc (unat block_id) \<le> ?N"
    by (simp add: word_less_nat_alt block_store_get_total_blocks_def)
  then have "Suc (unat block_id) * ?B \<le> ?N * ?B"
    by (rule mult_le_mono1)
  with assms(1) show le: "unat block_id * ?B + ?B \<le> unat (BLOCK_STORE_NUM_BYTES cfg)"
    by (simp add: config_ok_def add.commute)
  from assms(1) have "unat (BLOCK_STORE_NUM_BYTES cfg) < 2 ^ 64"
    by (simp add: config_ok_def)
  with le have "unat block_id * ?B < 2 ^ LENGTH(64)" by simp
  then show "unat (block_id * BLOCK_SIZE_BYTES cfg) = unat block_id * ?B"
    by (simp only: unat_mult_lem [THEN iffD1])
qed

lemma block_store_write_in_range:
  assumes "config_ok cfg" and "length (data s) = unat (BLOCK_STORE_NUM_BYTES cfg)"
    and "block_id < block_store_get_total_blocks cfg"
    and "unat (BLOCK_SIZE_BYTES cfg) \<le> length buf"
  shows "block_store_write cfg (Some s) block_id (Some buf)
     = Some (BLOCK_SIZE_BYTES cfg,
         Some (s\<lparr>data := take (unat block_id * unat (BLOCK_SIZE_BYTES cfg)) (data s)
                  @ take (unat (BLOCK_SIZE_BYTES cfg)) buf
                  @ drop (unat block_id * unat (BLOCK_SIZE_BYTES cfg) + unat (BLOCK_SIZE_BYTES cfg))
                      (data s)\<rparr>))"
proof -
  from assms(3) have "\<not> block_store_get_total_blocks cfg \<le> block_id"
    by (simp add: not_le)
  with assms block_offset [OF assms(1,3)] show ?thesis
    by (simp add: block_store_write_def memcpy_def)
qed

lemma block_store_read_in_range:
  assumes "config_ok cfg" and "length (data s) = unat (BLOCK_STORE_NUM_BYTES cfg)"
    and "block_id < block_store_get_total_blocks cfg"
    and "unat (BLOCK_SIZE_BYTES cfg) \<le> length buf"
  shows "block_store_read cfg (Some s) block_id (Some buf)
     = Some (BLOCK_SIZE_BYTES cfg,
         Some (take (unat (BLOCK_SIZE_BYTES cfg))
                 (drop (unat block_id * unat (BLOCK_SIZE_BYTES cfg)) (data s))
               @ drop (unat (BLOCK_SIZE_BYTES cfg)) buf))"
proof -
  from assms(3) have "\<not> block_store_get_total_blocks cfg \<le> block_id"
    by (simp add: not_le)
  with assms block_offset [OF assms(1,3)] show ?thesis
    by (simp add: block_store_read_def memcpy_def)
qed

lemma read_back_slice:
  assumes "off + n \<le> length d" and "n \<le> length src"
  shows "take n (drop off (take off d @ take n src @ drop (off + n) d)) = take n src"
  using assms by simp

text \<open>
  C6. For a store with its data array, a block id below the block count and buffers of at
  least \<open>B\<close> bytes, a write followed by a read of the same block returns \<open>B\<close> twice
  and leaves the written bytes in the read buffer. The bitmap is arbitrary: it may mark
  the block used or free, and is not changed.
\<close>

theorem write_read_roundtrip:
  assumes "config_ok cfg" and "length (data s) = unat (BLOCK_STORE_NUM_BYTES cfg)"
    and "block_id < block_store_get_total_blocks cfg"
    and "unat (BLOCK_SIZE_BYTES cfg) \<le> length src"
    and "unat (BLOCK_SIZE_BYTES cfg) \<le> length dst"
  shows "\<exists>s' dst'.
           block_store_write cfg (Some s) block_id (Some src) = Some (BLOCK_SIZE_BYTES cfg, Some s')
         \<and> block_store_read cfg (Some s') block_id (Some dst)
             = Some (BLOCK_SIZE_BYTES cfg, Some dst')
         \<and> take (unat (BLOCK_SIZE_BYTES cfg)) dst' = take (unat (BLOCK_SIZE_BYTES cfg)) src
         \<and> drop (unat (BLOCK_SIZE_BYTES cfg)) dst' = drop (unat (BLOCK_SIZE_BYTES cfg)) dst
         \<and> (length src = unat (BLOCK_SIZE_BYTES cfg) \<and> length dst = unat (BLOCK_SIZE_BYTES cfg)
              \<longrightarrow> dst' = src)
         \<and> bitmap s' = bitmap s"
proof -
  let ?B = "unat (BLOCK_SIZE_BYTES cfg)" and ?off = "unat block_id * unat (BLOCK_SIZE_BYTES cfg)"
  let ?d = "take ?off (data s) @ take ?B src @ drop (?off + ?B) (data s)"
  let ?s' = "s\<lparr>data := ?d\<rparr>"
  let ?dst' = "take ?B src @ drop ?B dst"
  from block_offset(2) [OF assms(1,3)] assms(2)
  have fit: "?off + ?B \<le> length (data s)" by simp
  have len: "length (data ?s') = unat (BLOCK_STORE_NUM_BYTES cfg)"
    using fit assms(2,4) by simp
  have w: "block_store_write cfg (Some s) block_id (Some src) = Some (BLOCK_SIZE_BYTES cfg, Some ?s')"
    by (rule block_store_write_in_range [OF assms(1-4)])
  have slice: "take ?B (drop ?off ?d) = take ?B src"
    by (rule read_back_slice [OF fit assms(4)])
  have ds: "data ?s' = ?d" by simp
  have r: "block_store_read cfg (Some ?s') block_id (Some dst)
      = Some (BLOCK_SIZE_BYTES cfg, Some ?dst')"
    using block_store_read_in_range [OF assms(1) len assms(3,5)]
    by (simp only: ds slice)
  have t: "take ?B ?dst' = take ?B src"
    using assms(4) by simp
  have d: "drop ?B ?dst' = drop ?B dst"
    using assms(4) by simp
  have e: "length src = ?B \<and> length dst = ?B \<longrightarrow> ?dst' = src"
    by simp
  have b: "bitmap ?s' = bitmap s" by simp
  from w r t d e b show ?thesis by blast
qed


lemma config_ok_small_config: "config_ok small_config"
  by (simp add: config_ok_def small_config_def)

theorem write_read_roundtrip_witness:
  "config_ok small_config
   \<and> \<not> bitmap_test (bitmap_new 16) 5
   \<and> (\<exists>s'. block_store_write small_config (Some small_store) 5 (Some [1, 2, 3, 4])
              = Some (4, Some s')
          \<and> block_store_read small_config (Some s') 5 (Some [0, 0, 0, 0])
              = Some (4, Some [1, 2, 3, 4]))
   \<and> bitmap_test (bitmap_set (bitmap_new 16) 5) 5
   \<and> (\<exists>s'. block_store_write small_config
                (Some (small_store\<lparr>bitmap := Some (bitmap_set (bitmap_new 16) 5)\<rparr>)) 5
                (Some [1, 2, 3, 4])
              = Some (4, Some s')
          \<and> block_store_read small_config (Some s') 5 (Some [0, 0, 0, 0])
              = Some (4, Some [1, 2, 3, 4]))"
proof -
  have B: "BLOCK_SIZE_BYTES small_config = 4"
    by (simp add: small_config_def)
  have len: "length (data small_store) = unat (BLOCK_STORE_NUM_BYTES small_config)"
    "length (data (small_store\<lparr>bitmap := Some (bitmap_set (bitmap_new 16) 5)\<rparr>))
       = unat (BLOCK_STORE_NUM_BYTES small_config)"
    by (simp_all add: small_store_def small_config_def)
  have lt: "(5 :: size_t) < block_store_get_total_blocks small_config"
    by (simp add: block_store_get_total_blocks_def small_config_def)
  have src: "unat (BLOCK_SIZE_BYTES small_config) \<le> length [1, 2, 3, 4 :: byte]"
    and dst: "unat (BLOCK_SIZE_BYTES small_config) \<le> length [0, 0, 0, 0 :: byte]"
    by (simp_all add: B)
  from write_read_roundtrip [OF config_ok_small_config len(1) lt src dst]
  have free: "\<exists>s'. block_store_write small_config (Some small_store) 5 (Some [1, 2, 3, 4])
              = Some (4, Some s')
          \<and> block_store_read small_config (Some s') 5 (Some [0, 0, 0, 0])
              = Some (4, Some [1, 2, 3, 4])"
    by (auto simp: B)
  from write_read_roundtrip [OF config_ok_small_config len(2) lt src dst]
  have used: "\<exists>s'. block_store_write small_config
                (Some (small_store\<lparr>bitmap := Some (bitmap_set (bitmap_new 16) 5)\<rparr>)) 5
                (Some [1, 2, 3, 4])
              = Some (4, Some s')
          \<and> block_store_read small_config (Some s') 5 (Some [0, 0, 0, 0])
              = Some (4, Some [1, 2, 3, 4])"
    by (auto simp: B)
  show ?thesis
    using free used
    by (simp add: config_ok_small_config bitmap_test_new bitmap_test_set bitmap_ok_new)
qed

text \<open>
  C9. For a block id at or beyond the block count, read and write return 0 and leave the
  buffer and the store as they were, request fails and release does nothing. For every
  block id, a read or write on a store with its data array never copies outside the
  \<open>N * B\<close> bytes of that array.
\<close>

theorem out_of_range_rejected:
  assumes "config_ok cfg" and "length (data s) = unat (BLOCK_STORE_NUM_BYTES cfg)"
    and "buffer = None \<or> (\<exists>buf. buffer = Some buf \<and> unat (BLOCK_SIZE_BYTES cfg) \<le> length buf)"
  shows "(block_id \<ge> block_store_get_total_blocks cfg \<longrightarrow>
            block_store_read cfg bs block_id buffer = Some (0, buffer)
          \<and> block_store_write cfg bs block_id buffer = Some (0, bs)
          \<and> block_store_request cfg bs block_id = (False, bs)
          \<and> block_store_release cfg bs block_id = bs)
       \<and> block_store_read cfg (Some s) block_id buffer \<noteq> None
       \<and> block_store_write cfg (Some s) block_id buffer \<noteq> None"
proof (intro conjI impI)
  assume ge: "block_store_get_total_blocks cfg \<le> block_id"
  show "block_store_read cfg bs block_id buffer = Some (0, buffer)"
    using ge by (simp add: block_store_read_def split: option.splits)
  show "block_store_write cfg bs block_id buffer = Some (0, bs)"
    using ge by (simp add: block_store_write_def split: option.splits)
  show "block_store_request cfg bs block_id = (False, bs)"
    using ge by (simp add: block_store_request_def split: option.splits)
  from ge have "\<not> block_id < block_store_get_total_blocks cfg"
    by (simp add: not_less)
  then show "block_store_release cfg bs block_id = bs"
    by (simp add: block_store_release_def split: option.splits)
next
  show "block_store_read cfg (Some s) block_id buffer \<noteq> None"
  proof (cases "block_id < block_store_get_total_blocks cfg")
    case True
    show ?thesis
    proof (cases buffer)
      case None
      then show ?thesis by (simp add: block_store_read_def)
    next
      case (Some buf)
      with assms(3) have "unat (BLOCK_SIZE_BYTES cfg) \<le> length buf" by simp
      from block_store_read_in_range [OF assms(1,2) True this] Some show ?thesis by simp
    qed
  next
    case False
    then have "block_store_get_total_blocks cfg \<le> block_id" by (simp add: not_less)
    then show ?thesis by (simp add: block_store_read_def split: option.splits)
  qed
next
  show "block_store_write cfg (Some s) block_id buffer \<noteq> None"
  proof (cases "block_id < block_store_get_total_blocks cfg")
    case True
    show ?thesis
    proof (cases buffer)
      case None
      then show ?thesis by (simp add: block_store_write_def)
    next
      case (Some buf)
      with assms(3) have "unat (BLOCK_SIZE_BYTES cfg) \<le> length buf" by simp
      from block_store_write_in_range [OF assms(1,2) True this] Some show ?thesis by simp
    qed
  next
    case False
    then have "block_store_get_total_blocks cfg \<le> block_id" by (simp add: not_less)
    then show ?thesis by (simp add: block_store_write_def split: option.splits)
  qed
qed

theorem out_of_range_rejected_witness:
  "config_ok small_config
   \<and> block_store_read small_config (Some small_store) 16 (Some [9, 9, 9, 9])
       = Some (0, Some [9, 9, 9, 9])
   \<and> block_store_write small_config (Some small_store) 16 (Some [9, 9, 9, 9])
       = Some (0, Some small_store)
   \<and> block_store_request small_config (Some small_store) 16 = (False, Some small_store)
   \<and> block_store_release small_config (Some small_store) 16 = Some small_store
   \<and> block_store_read small_config (Some small_store) 15 (Some [9, 9, 9, 9]) \<noteq> None
   \<and> block_store_write small_config (Some small_store) 15 (Some [9, 9, 9, 9]) \<noteq> None"
proof -
  have len: "length (data small_store) = unat (BLOCK_STORE_NUM_BYTES small_config)"
    by (simp add: small_store_def small_config_def)
  have buf: "Some [9, 9, 9, 9 :: byte] = None
      \<or> (\<exists>buf. Some [9, 9, 9, 9 :: byte] = Some buf
            \<and> unat (BLOCK_SIZE_BYTES small_config) \<le> length buf)"
    by (simp add: small_config_def)
  have ge: "block_store_get_total_blocks small_config \<le> 16"
    by (simp add: block_store_get_total_blocks_def small_config_def)
  from out_of_range_rejected [OF config_ok_small_config len buf,
      where bs = "Some small_store" and block_id = 16] ge
  have past: "block_store_read small_config (Some small_store) 16 (Some [9, 9, 9, 9])
       = Some (0, Some [9, 9, 9, 9])
   \<and> block_store_write small_config (Some small_store) 16 (Some [9, 9, 9, 9])
       = Some (0, Some small_store)
   \<and> block_store_request small_config (Some small_store) 16 = (False, Some small_store)
   \<and> block_store_release small_config (Some small_store) 16 = Some small_store"
    by blast
  from out_of_range_rejected [OF config_ok_small_config len buf,
      where bs = "Some small_store" and block_id = 15]
  have last: "block_store_read small_config (Some small_store) 15 (Some [9, 9, 9, 9]) \<noteq> None
   \<and> block_store_write small_config (Some small_store) 15 (Some [9, 9, 9, 9]) \<noteq> None"
    by blast
  from past last show ?thesis
    by (simp add: config_ok_small_config)
qed

section \<open>Persistence\<close>

lemma word_succ_le_iff:
  "(i :: size_t) < n \<Longrightarrow> i \<le> j \<longleftrightarrow> j = i \<or> i + 1 \<le> j"
  by unat_arith

lemma is_allocated_from_iff:
  "is_allocated_from cfg block_data byte_index \<longleftrightarrow>
     (\<exists>k. unat byte_index \<le> k \<and> k < unat (BLOCK_SIZE_BYTES cfg) \<and> block_data ! k \<noteq> 0)"
proof (induction cfg block_data byte_index rule: is_allocated_from.induct)
  case (1 cfg block_data byte_index)
  show ?case
  proof (cases "byte_index < BLOCK_SIZE_BYTES cfg")
    case False
    then have "unat (BLOCK_SIZE_BYTES cfg) \<le> unat byte_index"
      by (simp add: word_less_nat_alt)
    with False show ?thesis
      by (subst is_allocated_from.simps) auto
  next
    case lt: True
    then have ult: "unat byte_index < unat (BLOCK_SIZE_BYTES cfg)"
      by (simp add: word_less_nat_alt)
    from lt have suc: "unat (byte_index + 1) = Suc (unat byte_index)"
      by unat_arith
    show ?thesis
    proof (cases "block_data ! unat byte_index \<noteq> 0")
      case True
      with lt ult show ?thesis
        by (subst is_allocated_from.simps) auto
    next
      case False
      then have "is_allocated_from cfg block_data byte_index
          \<longleftrightarrow> is_allocated_from cfg block_data (byte_index + 1)"
        using lt by (subst is_allocated_from.simps) simp
      also have "\<dots> \<longleftrightarrow> (\<exists>k. Suc (unat byte_index) \<le> k \<and> k < unat (BLOCK_SIZE_BYTES cfg)
          \<and> block_data ! k \<noteq> 0)"
        using "1.IH" lt False by (simp add: suc)
      also have "\<dots> \<longleftrightarrow> (\<exists>k. unat byte_index \<le> k \<and> k < unat (BLOCK_SIZE_BYTES cfg)
          \<and> block_data ! k \<noteq> 0)"
        using False by (metis Suc_leD Suc_leI le_neq_implies_less)
      finally show ?thesis .
    qed
  qed
qed

lemma mark_blocks_from_spec:
  assumes "bitmap_ok bm" and "bit_count bm = unat (block_store_get_total_blocks cfg)"
  shows "bitmap_ok (mark_blocks_from cfg d bm i)
       \<and> bit_count (mark_blocks_from cfg d bm i) = bit_count bm
       \<and> (\<forall>j. bitmap_test (mark_blocks_from cfg d bm i) (unat j) \<longleftrightarrow>
              bitmap_test bm (unat j)
              \<or> (i \<le> j \<and> j < block_store_get_total_blocks cfg
                  \<and> is_allocated_from cfg (drop (unat (j * BLOCK_SIZE_BYTES cfg)) d) 0))"
  using assms
proof (induction cfg d bm i rule: mark_blocks_from.induct)
  case (1 cfg d bm i)
  show ?case
  proof (cases "i < block_store_get_total_blocks cfg")
    case False
    then have "mark_blocks_from cfg d bm i = bm"
      by (subst mark_blocks_from.simps) simp
    with False "1.prems" show ?thesis by auto
  next
    case lt: True
    let ?a = "is_allocated_from cfg (drop (unat (i * BLOCK_SIZE_BYTES cfg)) d) 0"
    let ?bm1 = "if ?a then bitmap_set bm (unat i) else bm"
    have unf: "mark_blocks_from cfg d bm i = mark_blocks_from cfg d ?bm1 (i + 1)"
      using lt by (subst mark_blocks_from.simps) simp
    have ok1: "bitmap_ok ?bm1" using "1.prems"(1) by (simp add: bitmap_ok_set)
    have cnt1: "bit_count ?bm1 = unat (block_store_get_total_blocks cfg)"
      using "1.prems"(2) by simp
    from lt "1.prems"(2) have in_range: "unat i < bit_count bm"
      by (simp add: word_less_nat_alt)
    have t1: "bitmap_test ?bm1 (unat j) \<longleftrightarrow> bitmap_test bm (unat j) \<or> (j = i \<and> ?a)" for j
      using "1.prems"(1) in_range by (auto simp: bitmap_test_set word_unat_eq_iff)
    note ih = "1.IH" [OF lt ok1 cnt1]
    show ?thesis
    proof (intro conjI allI)
      show "bitmap_ok (mark_blocks_from cfg d bm i)"
        using ih by (simp only: unf)
      show "bit_count (mark_blocks_from cfg d bm i) = bit_count bm"
        using ih cnt1 "1.prems"(2) by (simp only: unf)
      fix j
      from ih have "bitmap_test (mark_blocks_from cfg d bm i) (unat j) \<longleftrightarrow>
          bitmap_test ?bm1 (unat j)
          \<or> (i + 1 \<le> j \<and> j < block_store_get_total_blocks cfg
              \<and> is_allocated_from cfg (drop (unat (j * BLOCK_SIZE_BYTES cfg)) d) 0)"
        by (simp only: unf)
      then show "bitmap_test (mark_blocks_from cfg d bm i) (unat j) \<longleftrightarrow>
              bitmap_test bm (unat j)
              \<or> (i \<le> j \<and> j < block_store_get_total_blocks cfg
                  \<and> is_allocated_from cfg (drop (unat (j * BLOCK_SIZE_BYTES cfg)) d) 0)"
        using lt word_succ_le_iff [OF lt, of j] by (auto simp: t1)
    qed
  qed
qed

lemma world_restored [simp]:
  "free_obj (close_fd (bitmap_destroy
      (w\<lparr>descriptors := descriptors w + 1, heap_objects := heap_objects w + 1,
         heap_objects := heap_objects w + 1 + 1\<rparr>))) = w"
  by (simp add: free_obj_def close_fd_def bitmap_destroy_def)

lemma deserialize_failure_releases:
  "fst (block_store_deserialize cfg ans w filename) = None \<Longrightarrow>
   snd (block_store_deserialize cfg ans w filename) = w"
  by (auto simp: block_store_deserialize_def open_rdonly_def calloc_block_store_def
      bitmap_create_def free_obj_def close_fd_def bitmap_destroy_def Let_def
      split: option.splits prod.splits if_splits)

lemma deserialize_success:
  assumes "files w path = Some content" and "open_ok ans" and "calloc_ok ans"
    and "bitmap_create_ok ans" and "transfer ans = Some k"
    and "unat (BLOCK_STORE_NUM_BYTES cfg) \<le> k"
    and "unat (BLOCK_STORE_NUM_BYTES cfg) \<le> length content"
  shows "block_store_deserialize cfg ans w (Some path)
     = (Some \<lparr>bitmap = Some (mark_blocks_from cfg (take (unat (BLOCK_STORE_NUM_BYTES cfg)) content)
                  (bitmap_new (unat (block_store_get_total_blocks cfg))) 0),
               data = take (unat (BLOCK_STORE_NUM_BYTES cfg)) content\<rparr>,
        w\<lparr>heap_objects := heap_objects w + 2\<rparr>)"
  using assms
  by (simp add: block_store_deserialize_def open_rdonly_def calloc_block_store_def
      bitmap_create_def read_fd_def close_fd_def Let_def min_absorb2)

lemma read_fd_full:
  assumes "read_fd ans w path (unat (n :: size_t)) = (uint n, got)"
  shows "\<exists>content k. files w path = Some content \<and> transfer ans = Some k
      \<and> unat n \<le> k \<and> unat n \<le> length content"
proof (cases "transfer ans")
  case None
  with assms have "(- 1 :: int) = uint n" by (simp add: read_fd_def)
  with uint_ge_0 [of n] show ?thesis by arith
next
  case (Some k)
  show ?thesis
  proof (cases "files w path")
    case None
    with Some assms have "(- 1 :: int) = uint n" by (simp add: read_fd_def)
    with uint_ge_0 [of n] show ?thesis by arith
  next
    case (Some content)
    with \<open>transfer ans = Some k\<close> assms
    have "int (min (length content) (min k (unat n))) = uint n"
      by (simp add: read_fd_def Let_def)
    then have "int (min (length content) (min k (unat n))) = int (unat n)"
      by (simp only: uint_nat)
    then have "min (length content) (min k (unat n)) = unat n"
      by (simp only: of_nat_eq_iff)
    then have "unat n \<le> k \<and> unat n \<le> length content" by arith
    with Some \<open>transfer ans = Some k\<close> show ?thesis by simp
  qed
qed

lemma deserialize_Some:
  assumes "fst (block_store_deserialize cfg ans w filename) = Some s"
  shows "\<exists>path content k. filename = Some path \<and> files w path = Some content
      \<and> open_ok ans \<and> calloc_ok ans \<and> bitmap_create_ok ans \<and> transfer ans = Some k
      \<and> unat (BLOCK_STORE_NUM_BYTES cfg) \<le> k
      \<and> unat (BLOCK_STORE_NUM_BYTES cfg) \<le> length content"
proof -
  from assms obtain path w1 bs0 w2 bm w3 got
    where "filename = Some path" and "open_rdonly ans w path = Some w1"
      and "calloc_block_store cfg ans w1 = (Some bs0, w2)"
      and "bitmap_create ans w2 (unat (block_store_get_total_blocks cfg)) = (Some bm, w3)"
      and rd: "read_fd ans w3 path (unat (BLOCK_STORE_NUM_BYTES cfg))
          = (uint (BLOCK_STORE_NUM_BYTES cfg), got)"
    by (auto simp: block_store_deserialize_def Let_def
        split: option.splits prod.splits if_splits)
  then have "open_ok ans" and "calloc_ok ans" and "bitmap_create_ok ans"
    and "files w3 = files w"
    by (auto simp: open_rdonly_def calloc_block_store_def bitmap_create_def split: if_splits)
  with read_fd_full [OF rd] \<open>filename = Some path\<close> show ?thesis by simp
qed

lemma deserialize_short:
  assumes "files w path = Some content"
    and "transfer ans = None
       \<or> (\<exists>k. transfer ans = Some k \<and> min k (length content) < unat (BLOCK_STORE_NUM_BYTES cfg))"
  shows "block_store_deserialize cfg ans w (Some path) = (None, w)"
proof -
  have "fst (block_store_deserialize cfg ans w (Some path)) = None"
  proof (cases "fst (block_store_deserialize cfg ans w (Some path))")
    case (Some s)
    from deserialize_Some [OF this] assms show ?thesis by auto
  qed simp
  with deserialize_failure_releases [OF this] show ?thesis
    by (simp add: prod_eq_iff)
qed

lemma deserialize_bits:
  assumes "config_ok cfg" and "length d = unat (BLOCK_STORE_NUM_BYTES cfg)"
    and "i < block_store_get_total_blocks cfg"
  shows "bitmap_test (mark_blocks_from cfg d (bitmap_new (unat (block_store_get_total_blocks cfg))) 0) (unat i)
     \<longleftrightarrow> (\<exists>k < unat (BLOCK_SIZE_BYTES cfg). d ! (unat i * unat (BLOCK_SIZE_BYTES cfg) + k) \<noteq> 0)"
proof -
  let ?B = "unat (BLOCK_SIZE_BYTES cfg)"
  note off = block_offset [OF assms(1,3)]
  from off(2) assms(2) have fit: "unat i * ?B + ?B \<le> length d" by simp
  have nth: "drop (unat i * ?B) d ! k = d ! (unat i * ?B + k)" if "k < ?B" for k
    using fit that by (intro nth_drop) simp
  have "bitmap_test (mark_blocks_from cfg d (bitmap_new (unat (block_store_get_total_blocks cfg))) 0) (unat i)
      \<longleftrightarrow> is_allocated_from cfg (drop (unat (i * BLOCK_SIZE_BYTES cfg)) d) 0"
    using mark_blocks_from_spec [OF bitmap_ok_new, of "unat (block_store_get_total_blocks cfg)" cfg d 0]
      assms(3)
    by (simp add: bitmap_test_new)
  also have "\<dots> \<longleftrightarrow> (\<exists>k. k < ?B \<and> drop (unat i * ?B) d ! k \<noteq> 0)"
    by (simp add: is_allocated_from_iff off(1))
  also have "\<dots> \<longleftrightarrow> (\<exists>k < ?B. d ! (unat i * ?B + k) \<noteq> 0)"
    using nth by auto
  finally show ?thesis .
qed

text \<open>
  C7. \<open>block_store_deserialize\<close> returns NULL, with every descriptor closed and every
  heap object freed, when the read delivers fewer than \<open>N * B\<close> bytes. When it returns a
  store, block \<open>i\<close> is marked in the bitmap exactly when one of its \<open>B\<close> bytes is not
  zero; a block of zeros is therefore free, whatever its state was when it was saved.
\<close>

theorem deserialize_reconstructs:
  assumes "config_ok cfg"
  shows "(\<forall>content. files w path = Some content
            \<and> (transfer ans = None
               \<or> (\<exists>k. transfer ans = Some k
                     \<and> min k (length content) < unat (BLOCK_STORE_NUM_BYTES cfg))) \<longrightarrow>
            block_store_deserialize cfg ans w (Some path) = (None, w))
       \<and> (fst (block_store_deserialize cfg ans w filename) = None \<longrightarrow>
            snd (block_store_deserialize cfg ans w filename) = w)
       \<and> (\<forall>s. fst (block_store_deserialize cfg ans w filename) = Some s \<longrightarrow>
            (\<exists>bm. bitmap s = Some bm
               \<and> (\<forall>i < block_store_get_total_blocks cfg.
                     bitmap_test bm (unat i) \<longleftrightarrow>
                       (\<exists>k < unat (BLOCK_SIZE_BYTES cfg).
                          data s ! (unat i * unat (BLOCK_SIZE_BYTES cfg) + k) \<noteq> 0))))"
proof (intro conjI allI impI)
  fix content
  assume "files w path = Some content
            \<and> (transfer ans = None
               \<or> (\<exists>k. transfer ans = Some k
                     \<and> min k (length content) < unat (BLOCK_STORE_NUM_BYTES cfg)))"
  then show "block_store_deserialize cfg ans w (Some path) = (None, w)"
    by (intro deserialize_short [of w path content]) auto
next
  assume "fst (block_store_deserialize cfg ans w filename) = None"
  then show "snd (block_store_deserialize cfg ans w filename) = w"
    by (rule deserialize_failure_releases)
next
  fix s
  assume some: "fst (block_store_deserialize cfg ans w filename) = Some s"
  from deserialize_Some [OF some] obtain path' content k
    where h: "filename = Some path'" "files w path' = Some content" "open_ok ans"
      "calloc_ok ans" "bitmap_create_ok ans" "transfer ans = Some k"
      "unat (BLOCK_STORE_NUM_BYTES cfg) \<le> k" "unat (BLOCK_STORE_NUM_BYTES cfg) \<le> length content"
    by blast
  let ?d = "take (unat (BLOCK_STORE_NUM_BYTES cfg)) content"
  let ?bm = "mark_blocks_from cfg ?d (bitmap_new (unat (block_store_get_total_blocks cfg))) 0"
  from deserialize_success [OF h(2-8)] some h(1)
  have s: "s = \<lparr>bitmap = Some ?bm, data = ?d\<rparr>" by simp
  have len: "length ?d = unat (BLOCK_STORE_NUM_BYTES cfg)"
    using h(8) by simp
  have "\<forall>i < block_store_get_total_blocks cfg.
      bitmap_test ?bm (unat i) \<longleftrightarrow>
        (\<exists>k < unat (BLOCK_SIZE_BYTES cfg). ?d ! (unat i * unat (BLOCK_SIZE_BYTES cfg) + k) \<noteq> 0)"
    using deserialize_bits [OF assms len] by blast
  then show "\<exists>bm. bitmap s = Some bm
               \<and> (\<forall>i < block_store_get_total_blocks cfg.
                     bitmap_test bm (unat i) \<longleftrightarrow>
                       (\<exists>k < unat (BLOCK_SIZE_BYTES cfg).
                          data s ! (unat i * unat (BLOCK_SIZE_BYTES cfg) + k) \<noteq> 0))"
    by (simp add: s)
qed

theorem deserialize_reconstructs_witness:
  "config_ok small_config
   \<and> block_store_deserialize small_config all_ok (world_with ''blocks.bin'' (replicate 63 0))
        (Some ''blocks.bin'')
       = (None, world_with ''blocks.bin'' (replicate 63 0))
   \<and> (\<exists>s bm. fst (block_store_deserialize small_config all_ok
                     (world_with ''blocks.bin'' sample_image) (Some ''blocks.bin'')) = Some s
          \<and> bitmap s = Some bm \<and> bitmap_test bm 6 \<and> \<not> bitmap_test bm 5)"
proof -
  let ?short = "world_with ''blocks.bin'' (replicate 63 0)"
  let ?w = "world_with ''blocks.bin'' sample_image"
  have NB: "unat (BLOCK_STORE_NUM_BYTES small_config) = 64"
    and B: "unat (BLOCK_SIZE_BYTES small_config) = 4"
    and N: "block_store_get_total_blocks small_config = 16"
    by (simp_all add: small_config_def block_store_get_total_blocks_def)
  have short: "files ?short ''blocks.bin'' = Some (replicate 63 0)
      \<and> (transfer all_ok = None
         \<or> (\<exists>k. transfer all_ok = Some k
               \<and> min k (length (replicate 63 (0 :: byte))) < unat (BLOCK_STORE_NUM_BYTES small_config)))"
    by (simp add: world_with_def all_ok_def NB)
  from deserialize_reconstructs [OF config_ok_small_config,
      where w = ?short and path = "''blocks.bin''" and ans = all_ok] short
  have fail: "block_store_deserialize small_config all_ok ?short (Some ''blocks.bin'')
      = (None, ?short)"
    by blast
  have len: "length sample_image = 64"
    by (simp add: sample_image_def)
  have "files ?w ''blocks.bin'' = Some sample_image" "open_ok all_ok" "calloc_ok all_ok"
    "bitmap_create_ok all_ok" "transfer all_ok = Some (2 ^ 64)"
    "unat (BLOCK_STORE_NUM_BYTES small_config) \<le> 2 ^ 64"
    "unat (BLOCK_STORE_NUM_BYTES small_config) \<le> length sample_image"
    by (simp_all add: world_with_def all_ok_def NB len)
  from deserialize_success [OF this]
  obtain s where s: "fst (block_store_deserialize small_config all_ok ?w (Some ''blocks.bin'')) = Some s"
    and d: "data s = sample_image"
    by (simp add: NB len)
  from deserialize_reconstructs [OF config_ok_small_config,
      where w = ?w and ans = all_ok and filename = "Some ''blocks.bin''"] s
  obtain bm where bm: "bitmap s = Some bm"
    and bits: "\<forall>i < block_store_get_total_blocks small_config.
        bitmap_test bm (unat i) \<longleftrightarrow>
          (\<exists>k < unat (BLOCK_SIZE_BYTES small_config).
             data s ! (unat i * unat (BLOCK_SIZE_BYTES small_config) + k) \<noteq> 0)"
    by blast
  have six: "bitmap_test bm 6"
  proof -
    have "sample_image ! (6 * 4 + 1) \<noteq> 0"
      by (simp add: sample_image_def nth_append)
    then have "\<exists>k < 4. sample_image ! (6 * 4 + k) \<noteq> 0"
      by (intro exI [of _ 1]) simp
    with bits [rule_format, of 6] show ?thesis
      by (simp add: N B d)
  qed
  have five: "\<not> bitmap_test bm 5"
  proof -
    have "\<not> (\<exists>k < 4. sample_image ! (5 * 4 + k) \<noteq> 0)"
      by (auto simp: sample_image_def nth_append)
    with bits [rule_format, of 5] show ?thesis
      by (simp add: N B d)
  qed
  from fail s bm six five show ?thesis
    by (simp add: config_ok_small_config)
qed

lemma sint_num_bytes:
  assumes "unat (n :: size_t) < 2 ^ 63"
  shows "sint n = int (unat n)"
proof -
  from assms have "int (unat n) < 2 ^ 63"
    by (metis of_nat_less_iff of_nat_numeral of_nat_power)
  then have hi: "uint n < 2 ^ 63" by (simp only: uint_nat)
  have "- (2 ^ 63 :: int) \<le> 0" by simp
  then have lo: "- (2 ^ 63) \<le> uint n"
    using uint_ge_0 [of n] by (rule order_trans)
  have "sint n = signed_take_bit 63 (uint n)"
    by (simp add: sint_uint)
  also have "\<dots> = uint n"
    using lo hi by (rule signed_take_bit_int_eq_self)
  finally show ?thesis by (simp only: uint_nat)
qed


lemma serialize_success:
  assumes "unat (BLOCK_STORE_NUM_BYTES cfg) < 2 ^ 63"
    and "length (data s) = unat (BLOCK_STORE_NUM_BYTES cfg)"
    and "open_ok ans" and "transfer ans = Some k" and "unat (BLOCK_STORE_NUM_BYTES cfg) \<le> k"
  shows "block_store_serialize cfg ans w (Some s) (Some path)
     = (BLOCK_STORE_NUM_BYTES cfg, w\<lparr>files := (files w)(path \<mapsto> data s)\<rparr>)"
  using assms
  by (simp add: block_store_serialize_def open_wronly_creat_trunc_def write_fd_def close_fd_def
      Let_def sint_num_bytes min_absorb2)

lemma serialize_open_failure:
  "\<not> open_ok ans \<Longrightarrow> block_store_serialize cfg ans w bs filename = (0, w)"
  by (simp add: block_store_serialize_def open_wronly_creat_trunc_def split: option.splits)

lemma serialize_write_failure:
  assumes "unat (BLOCK_STORE_NUM_BYTES cfg) < 2 ^ 63"
    and "length (data s) = unat (BLOCK_STORE_NUM_BYTES cfg)"
    and "transfer ans = None \<or> (\<exists>k. transfer ans = Some k \<and> k < unat (BLOCK_STORE_NUM_BYTES cfg))"
  shows "fst (block_store_serialize cfg ans w (Some s) filename) = 0"
proof -
  let ?n = "BLOCK_STORE_NUM_BYTES cfg"
  have sn: "sint ?n = uint ?n"
    using sint_num_bytes [OF assms(1)] by (simp only: uint_nat)
  have neg: "(- 1 :: int) \<noteq> uint ?n"
    using uint_ge_0 [of ?n] by arith
  have written: "fst (write_fd ans w' path (data s) (unat ?n)) \<noteq> sint ?n" for w' path
  proof (cases "transfer ans")
    case None
    then show ?thesis by (simp add: sn neg write_fd_def)
  next
    case (Some k)
    with assms(3) have k: "k < unat ?n" by simp
    show ?thesis
    proof (cases "files w' path")
      case None
      with Some show ?thesis by (simp add: sn neg write_fd_def)
    next
      case (Some content)
      with \<open>transfer ans = Some k\<close> k assms(2)
      have "fst (write_fd ans w' path (data s) (unat ?n)) = int k"
        by (simp add: write_fd_def Let_def min_absorb1)
      moreover from k have "int k \<noteq> uint ?n"
        by (metis uint_nat of_nat_eq_iff less_irrefl)
      ultimately show ?thesis by (simp add: sn)
    qed
  qed
  show ?thesis
  proof (cases filename)
    case None
    then show ?thesis by (simp add: block_store_serialize_def)
  next
    case (Some path)
    show ?thesis
    proof (cases "open_wronly_creat_trunc ans w path")
      case None
      with Some show ?thesis by (simp add: block_store_serialize_def)
    next
      case w1: (Some w1)
      from written [of w1 path] Some w1 show ?thesis
        by (auto simp: block_store_serialize_def split: prod.splits)
    qed
  qed
qed

lemma concat_blocks:
  "n * b \<le> length xs \<Longrightarrow>
   concat (map (\<lambda>i. take b (drop (i * b) xs)) [0..<n]) = take (n * b) xs"
proof (induction n)
  case 0
  show ?case by simp
next
  case (Suc n)
  then have ih: "concat (map (\<lambda>i. take b (drop (i * b) xs)) [0..<n]) = take (n * b) xs"
    by simp
  have "take (Suc n * b) xs = take (n * b + b) xs"
    by (simp add: add.commute)
  also have "\<dots> = take (n * b) xs @ take b (drop (n * b) xs)"
    by (rule take_add)
  finally show ?case
    by (simp only: upt_Suc_append [OF le0] map_append concat_append ih) simp
qed

text \<open>
  C8. For a store with its data array, a successful \<open>block_store_serialize\<close> returns
  \<open>N * B\<close> and leaves a file that holds the data array and nothing else: the blocks in
  index order. \<open>block_store_deserialize\<close> of that file gives a store with the same data
  array, so reading any block returns the bytes it had before. When \<open>open\<close> fails or
  \<open>write\<close> transfers fewer bytes, serialize returns 0.
\<close>

theorem serialize_deserialize_roundtrip:
  assumes "config_ok cfg" and "length (data s) = unat (BLOCK_STORE_NUM_BYTES cfg)"
  shows "(open_ok ans \<and> (\<exists>k. transfer ans = Some k \<and> unat (BLOCK_STORE_NUM_BYTES cfg) \<le> k) \<longrightarrow>
            (\<exists>w'. block_store_serialize cfg ans w (Some s) (Some path)
                     = (BLOCK_STORE_NUM_BYTES cfg, w')
               \<and> unat (BLOCK_STORE_NUM_BYTES cfg)
                   = unat (BLOCK_STORE_NUM_BLOCKS cfg) * unat (BLOCK_SIZE_BYTES cfg)
               \<and> files w' path = Some (data s)
               \<and> data s = concat (map (\<lambda>i. take (unat (BLOCK_SIZE_BYTES cfg))
                                              (drop (i * unat (BLOCK_SIZE_BYTES cfg)) (data s)))
                                     [0..<unat (BLOCK_STORE_NUM_BLOCKS cfg)])
               \<and> (\<forall>ans'. open_ok ans' \<and> calloc_ok ans' \<and> bitmap_create_ok ans'
                       \<and> (\<exists>k. transfer ans' = Some k \<and> unat (BLOCK_STORE_NUM_BYTES cfg) \<le> k) \<longrightarrow>
                     (\<exists>s'. fst (block_store_deserialize cfg ans' w' (Some path)) = Some s'
                        \<and> data s' = data s
                        \<and> (\<forall>block_id buf. block_id < block_store_get_total_blocks cfg
                               \<and> unat (BLOCK_SIZE_BYTES cfg) \<le> length buf \<longrightarrow>
                             block_store_read cfg (Some s') block_id (Some buf)
                               = Some (BLOCK_SIZE_BYTES cfg,
                                   Some (take (unat (BLOCK_SIZE_BYTES cfg))
                                           (drop (unat block_id * unat (BLOCK_SIZE_BYTES cfg)) (data s))
                                         @ drop (unat (BLOCK_SIZE_BYTES cfg)) buf)))))))
       \<and> (\<not> open_ok ans \<longrightarrow> fst (block_store_serialize cfg ans w (Some s) filename) = 0)
       \<and> (transfer ans = None
            \<or> (\<exists>k. transfer ans = Some k \<and> k < unat (BLOCK_STORE_NUM_BYTES cfg)) \<longrightarrow>
            fst (block_store_serialize cfg ans w (Some s) filename) = 0)"
proof -
  let ?NB = "unat (BLOCK_STORE_NUM_BYTES cfg)" and ?B = "unat (BLOCK_SIZE_BYTES cfg)"
  let ?N = "unat (BLOCK_STORE_NUM_BLOCKS cfg)"
  from assms(1) have small: "?NB < 2 ^ 63" and prod: "?N * ?B = ?NB"
    by (simp_all add: config_ok_def)
  show ?thesis
  proof (intro conjI impI)
    assume "\<not> open_ok ans"
    then show "fst (block_store_serialize cfg ans w (Some s) filename) = 0"
      by (simp add: serialize_open_failure)
  next
    assume "transfer ans = None \<or> (\<exists>k. transfer ans = Some k \<and> k < ?NB)"
    then show "fst (block_store_serialize cfg ans w (Some s) filename) = 0"
      by (rule serialize_write_failure [OF small assms(2)])
  next
    assume "open_ok ans \<and> (\<exists>k. transfer ans = Some k \<and> ?NB \<le> k)"
    then obtain k where ok: "open_ok ans" "transfer ans = Some k" "?NB \<le> k" by blast
    let ?w' = "w\<lparr>files := (files w)(path \<mapsto> data s)\<rparr>"
    have ser: "block_store_serialize cfg ans w (Some s) (Some path) = (BLOCK_STORE_NUM_BYTES cfg, ?w')"
      by (rule serialize_success [OF small assms(2) ok])
    have stored: "files ?w' path = Some (data s)" by simp
    have blocks: "data s = concat (map (\<lambda>i. take ?B (drop (i * ?B) (data s))) [0..<?N])"
      using concat_blocks [of ?N ?B "data s"] assms(2) prod by simp
    have reload: "\<forall>ans'. open_ok ans' \<and> calloc_ok ans' \<and> bitmap_create_ok ans'
          \<and> (\<exists>k. transfer ans' = Some k \<and> ?NB \<le> k) \<longrightarrow>
        (\<exists>s'. fst (block_store_deserialize cfg ans' ?w' (Some path)) = Some s'
        \<and> data s' = data s
        \<and> (\<forall>block_id buf. block_id < block_store_get_total_blocks cfg \<and> ?B \<le> length buf \<longrightarrow>
              block_store_read cfg (Some s') block_id (Some buf)
                = Some (BLOCK_SIZE_BYTES cfg,
                    Some (take ?B (drop (unat block_id * ?B) (data s)) @ drop ?B buf))))"
    proof (intro allI impI)
      fix ans' :: answers
      assume a: "open_ok ans' \<and> calloc_ok ans' \<and> bitmap_create_ok ans'
          \<and> (\<exists>k. transfer ans' = Some k \<and> ?NB \<le> k)"
      from a obtain k' where ok': "open_ok ans'" "calloc_ok ans'" "bitmap_create_ok ans'"
        "transfer ans' = Some k'" "?NB \<le> k'" by blast
      have enough: "?NB \<le> length (data s)" using assms(2) by simp
      let ?s' = "\<lparr>bitmap = Some (mark_blocks_from cfg (take ?NB (data s))
                    (bitmap_new (unat (block_store_get_total_blocks cfg))) 0),
                  data = take ?NB (data s)\<rparr>"
      have d: "fst (block_store_deserialize cfg ans' ?w' (Some path)) = Some ?s'"
        using deserialize_success [where w = ?w' and path = path and content = "data s"
            and ans = ans' and k = k' and cfg = cfg] stored ok' enough
        by simp
      have same: "data ?s' = data s" using assms(2) by simp
      have len: "length (data ?s') = ?NB" using assms(2) by simp
      have "block_store_read cfg (Some ?s') block_id (Some buf)
          = Some (BLOCK_SIZE_BYTES cfg,
              Some (take ?B (drop (unat block_id * ?B) (data s)) @ drop ?B buf))"
        if "block_id < block_store_get_total_blocks cfg" "?B \<le> length buf" for block_id buf
        using block_store_read_in_range [OF assms(1) len that] by (simp only: same)
      with d same
      show "\<exists>s'. fst (block_store_deserialize cfg ans' ?w' (Some path)) = Some s'
        \<and> data s' = data s
        \<and> (\<forall>block_id buf. block_id < block_store_get_total_blocks cfg \<and> ?B \<le> length buf \<longrightarrow>
              block_store_read cfg (Some s') block_id (Some buf)
                = Some (BLOCK_SIZE_BYTES cfg,
                    Some (take ?B (drop (unat block_id * ?B) (data s)) @ drop ?B buf)))"
        by blast
    qed
    from ser stored blocks reload prod
    show "\<exists>w'. block_store_serialize cfg ans w (Some s) (Some path) = (BLOCK_STORE_NUM_BYTES cfg, w')
               \<and> ?NB = ?N * ?B
               \<and> files w' path = Some (data s)
               \<and> data s = concat (map (\<lambda>i. take ?B (drop (i * ?B) (data s))) [0..<?N])
               \<and> (\<forall>ans'. open_ok ans' \<and> calloc_ok ans' \<and> bitmap_create_ok ans'
                       \<and> (\<exists>k. transfer ans' = Some k \<and> ?NB \<le> k) \<longrightarrow>
                     (\<exists>s'. fst (block_store_deserialize cfg ans' w' (Some path)) = Some s'
                        \<and> data s' = data s
                        \<and> (\<forall>block_id buf. block_id < block_store_get_total_blocks cfg
                               \<and> ?B \<le> length buf \<longrightarrow>
                             block_store_read cfg (Some s') block_id (Some buf)
                               = Some (BLOCK_SIZE_BYTES cfg,
                                   Some (take ?B (drop (unat block_id * ?B) (data s))
                                         @ drop ?B buf)))))"
      by (intro exI [of _ ?w'] conjI) (simp_all only: simp_thms)
  qed
qed


theorem serialize_deserialize_roundtrip_witness:
  "config_ok small_config
   \<and> (\<exists>w'. block_store_serialize small_config all_ok empty_world
               (Some (small_store\<lparr>data := sample_image\<rparr>)) (Some ''blocks.bin'') = (64, w')
          \<and> files w' ''blocks.bin'' = Some sample_image
          \<and> (\<exists>s'. fst (block_store_deserialize small_config all_ok w' (Some ''blocks.bin'')) = Some s'
                 \<and> data s' = sample_image
                 \<and> block_store_read small_config (Some s') 6 (Some [9, 9, 9, 9])
                     = Some (4, Some [0, 7, 0, 0])))
   \<and> fst (block_store_serialize small_config (all_ok\<lparr>transfer := Some 10\<rparr>) empty_world
            (Some (small_store\<lparr>data := sample_image\<rparr>)) (Some ''blocks.bin'')) = 0"
proof -
  let ?s = "small_store\<lparr>data := sample_image\<rparr>"
  have NB: "BLOCK_STORE_NUM_BYTES small_config = 64" and B: "BLOCK_SIZE_BYTES small_config = 4"
    and N: "block_store_get_total_blocks small_config = 16"
    by (simp_all add: small_config_def block_store_get_total_blocks_def)
  have len: "length (data ?s) = unat (BLOCK_STORE_NUM_BYTES small_config)"
    by (simp add: sample_image_def small_config_def)
  have good: "open_ok all_ok \<and> calloc_ok all_ok \<and> bitmap_create_ok all_ok
      \<and> (\<exists>k. transfer all_ok = Some k \<and> unat (BLOCK_STORE_NUM_BYTES small_config) \<le> k)"
    by (simp add: all_ok_def NB)
  have partial: "transfer (all_ok\<lparr>transfer := Some 10\<rparr>) = None
      \<or> (\<exists>k. transfer (all_ok\<lparr>transfer := Some 10\<rparr>) = Some k
            \<and> k < unat (BLOCK_STORE_NUM_BYTES small_config))"
    by (simp add: NB)
  from serialize_deserialize_roundtrip [OF config_ok_small_config len,
      where ans = all_ok and w = empty_world and path = "''blocks.bin''"] good
  obtain w' where ser: "block_store_serialize small_config all_ok empty_world (Some ?s)
        (Some ''blocks.bin'') = (BLOCK_STORE_NUM_BYTES small_config, w')"
    and stored: "files w' ''blocks.bin'' = Some (data ?s)"
    and reload: "\<forall>ans'. open_ok ans' \<and> calloc_ok ans' \<and> bitmap_create_ok ans'
        \<and> (\<exists>k. transfer ans' = Some k \<and> unat (BLOCK_STORE_NUM_BYTES small_config) \<le> k) \<longrightarrow>
        (\<exists>s'. fst (block_store_deserialize small_config ans' w' (Some ''blocks.bin'')) = Some s'
           \<and> data s' = data ?s
           \<and> (\<forall>block_id buf. block_id < block_store_get_total_blocks small_config
                  \<and> unat (BLOCK_SIZE_BYTES small_config) \<le> length buf \<longrightarrow>
                block_store_read small_config (Some s') block_id (Some buf)
                  = Some (BLOCK_SIZE_BYTES small_config,
                      Some (take (unat (BLOCK_SIZE_BYTES small_config))
                              (drop (unat block_id * unat (BLOCK_SIZE_BYTES small_config)) (data ?s))
                            @ drop (unat (BLOCK_SIZE_BYTES small_config)) buf))))"
    by blast
  from reload good
  obtain s' where des: "fst (block_store_deserialize small_config all_ok w' (Some ''blocks.bin'')) = Some s'"
    and same: "data s' = data ?s"
    and rd: "\<forall>block_id buf. block_id < block_store_get_total_blocks small_config
                  \<and> unat (BLOCK_SIZE_BYTES small_config) \<le> length buf \<longrightarrow>
                block_store_read small_config (Some s') block_id (Some buf)
                  = Some (BLOCK_SIZE_BYTES small_config,
                      Some (take (unat (BLOCK_SIZE_BYTES small_config))
                              (drop (unat block_id * unat (BLOCK_SIZE_BYTES small_config)) (data ?s))
                            @ drop (unat (BLOCK_SIZE_BYTES small_config)) buf))"
    by blast
  from rd [rule_format, of 6 "[9, 9, 9, 9]"]
  have six: "block_store_read small_config (Some s') 6 (Some [9, 9, 9, 9]) = Some (4, Some [0, 7, 0, 0])"
    by (simp add: N B sample_image_def)
  from serialize_deserialize_roundtrip [OF config_ok_small_config len,
      where ans = "all_ok\<lparr>transfer := Some 10\<rparr>" and w = empty_world
        and filename = "Some ''blocks.bin''"] partial
  have fail: "fst (block_store_serialize small_config (all_ok\<lparr>transfer := Some 10\<rparr>) empty_world
      (Some ?s) (Some ''blocks.bin'')) = 0"
    by blast
  from ser stored des same six fail show ?thesis
    by (auto simp: config_ok_small_config NB)
qed

section \<open>Counters beyond the total\<close>

lemma unat_neg:
  "(x :: size_t) \<noteq> 0 \<Longrightarrow> unat (- x) = 2 ^ 64 - unat x"
  using unat_sub_if_size [of 0 x] by (simp add: word_size unat_gt_0)

lemma unat_neg':
  "(x :: size_t) \<noteq> 0 \<Longrightarrow> unat (n - (n + x)) = 2 ^ 64 - unat x"
  by (simp add: unat_neg)

lemma request_bits:
  assumes "store_ok cfg s" and "bitmap s = Some bm"
  shows "\<exists>s1 bm1. snd (block_store_request cfg (Some s) i) = Some s1 \<and> store_ok cfg s1
      \<and> bitmap s1 = Some bm1
      \<and> (\<forall>j. bitmap_test bm1 j \<longleftrightarrow>
             bitmap_test bm j \<or> (j = unat i \<and> i < block_store_get_total_blocks cfg))"
proof (cases "i < block_store_get_total_blocks cfg \<and> \<not> bitmap_test bm (unat i)")
  case True
  then have r: "unat i < bit_count bm"
    using assms by (simp add: store_ok_def word_less_nat_alt block_store_get_total_blocks_def)
  from True assms(2) have "snd (block_store_request cfg (Some s) i)
      = Some (s\<lparr>bitmap := Some (bitmap_set bm (unat i))\<rparr>)"
    by (auto simp: block_store_request_def not_le)
  moreover have "store_ok cfg (s\<lparr>bitmap := Some (bitmap_set bm (unat i))\<rparr>)"
    using assms by (simp add: store_ok_def bitmap_ok_set)
  moreover have "\<forall>j. bitmap_test (bitmap_set bm (unat i)) j \<longleftrightarrow>
      bitmap_test bm j \<or> (j = unat i \<and> i < block_store_get_total_blocks cfg)"
    using assms r True by (auto simp: bitmap_test_set store_ok_def)
  ultimately show ?thesis by simp
next
  case False
  then have "snd (block_store_request cfg (Some s) i) = Some s"
    using assms(2) by (auto simp: block_store_request_def not_le)
  moreover have "\<forall>j. bitmap_test bm j \<longleftrightarrow>
      bitmap_test bm j \<or> (j = unat i \<and> i < block_store_get_total_blocks cfg)"
    using False by auto
  ultimately show ?thesis using assms by simp
qed

lemma request_list_bits:
  assumes "store_ok cfg s" and "bitmap s = Some bm"
  shows "\<exists>s1 bm1. run_calls cfg (Some s) (map Request ids) = Some s1 \<and> store_ok cfg s1
      \<and> bitmap s1 = Some bm1
      \<and> (\<forall>j. bitmap_test bm1 j \<longleftrightarrow>
             bitmap_test bm j
             \<or> (\<exists>i \<in> set ids. j = unat i \<and> i < block_store_get_total_blocks cfg))"
  using assms
proof (induction ids arbitrary: s bm)
  case Nil
  then show ?case by (simp add: run_calls_def)
next
  case (Cons i ids)
  from request_bits [OF Cons.prems, of i]
  obtain s1 bm1 where s1: "snd (block_store_request cfg (Some s) i) = Some s1" "store_ok cfg s1"
    "bitmap s1 = Some bm1"
    and b1: "\<forall>j. bitmap_test bm1 j \<longleftrightarrow>
             bitmap_test bm j \<or> (j = unat i \<and> i < block_store_get_total_blocks cfg)"
    by blast
  from Cons.IH [OF s1(2,3)]
  obtain s2 bm2 where s2: "run_calls cfg (Some s1) (map Request ids) = Some s2" "store_ok cfg s2"
    "bitmap s2 = Some bm2"
    and b2: "\<forall>j. bitmap_test bm2 j \<longleftrightarrow>
             bitmap_test bm1 j
             \<or> (\<exists>i \<in> set ids. j = unat i \<and> i < block_store_get_total_blocks cfg)"
    by blast
  have "run_calls cfg (Some s) (map Request (i # ids)) = Some s2"
    using s1(1) s2(1) by (simp add: run_calls_def)
  moreover have "\<forall>j. bitmap_test bm2 j \<longleftrightarrow>
             bitmap_test bm j
             \<or> (\<exists>i' \<in> set (i # ids). j = unat i' \<and> i' < block_store_get_total_blocks cfg)"
    using b1 b2 by auto
  ultimately show ?case using s2(2,3) by blast
qed

lemma all_set_counters:
  assumes "config_ok cfg" and "BITMAP_NUM_BLOCKS cfg \<noteq> 0" and "BLOCK_SIZE_BYTES cfg \<noteq> 0"
    and "bitmap s = Some bm" and "bitmap_ok bm"
    and "bit_count bm = unat (block_store_get_total_blocks cfg)"
    and "\<And>j. j < unat (block_store_get_total_blocks cfg) \<Longrightarrow> bitmap_test bm j"
  shows "block_store_get_total_blocks cfg < block_store_get_used_blocks cfg (Some s)"
    and "unat (block_store_get_used_blocks cfg (Some s))
          = unat (block_store_get_total_blocks cfg) + unat (BITMAP_NUM_BLOCKS cfg)"
    and "unat (block_store_get_free_blocks cfg (Some s)) = 2 ^ 64 - unat (BITMAP_NUM_BLOCKS cfg)"
    and "block_store_get_total_blocks cfg < block_store_get_free_blocks cfg (Some s)"
proof -
  let ?N = "BLOCK_STORE_NUM_BLOCKS cfg" and ?R = "BITMAP_NUM_BLOCKS cfg"
  have "{i. bitmap_test bm i} = {..<unat ?N}"
    using assms(6,7) by (auto simp: block_store_get_total_blocks_def dest: bitmap_test_less)
  then have total: "bitmap_total_set bm = unat ?N"
    by (simp add: bitmap_total_set_card [OF assms(5)])
  have used: "block_store_get_used_blocks cfg (Some s) = ?N + ?R"
    using assms(4) by (simp add: block_store_get_used_blocks_def total)
  from assms(3) have "1 \<le> unat (BLOCK_SIZE_BYTES cfg)"
    using unat_gt_0 [of "BLOCK_SIZE_BYTES cfg"] by simp
  then have "unat ?N * 1 \<le> unat ?N * unat (BLOCK_SIZE_BYTES cfg)"
    by (rule mult_le_mono2)
  with assms(1) have nlt: "unat ?N < 2 ^ 63" and rle: "unat ?R \<le> unat ?N"
    by (simp_all add: config_ok_def)
  from assms(2) have rpos: "0 < unat ?R" by (simp add: unat_gt_0)
  have "unat ?N + unat ?R < 2 ^ 63 + 2 ^ 63" using nlt rle by simp
  then have "unat ?N + unat ?R < 2 ^ LENGTH(64)" by simp
  then have sum: "unat (?N + ?R) = unat ?N + unat ?R"
    by (simp only: unat_add_lem [THEN iffD1])
  show u: "unat (block_store_get_used_blocks cfg (Some s))
      = unat (block_store_get_total_blocks cfg) + unat ?R"
    by (simp add: used sum block_store_get_total_blocks_def)
  show "block_store_get_total_blocks cfg < block_store_get_used_blocks cfg (Some s)"
    using rpos by (simp add: word_less_nat_alt u)
  have free: "block_store_get_free_blocks cfg (Some s) = ?N - (?N + ?R)"
    using assms(4) by (simp add: block_store_get_free_blocks_def used block_store_get_total_blocks_def)
  show f: "unat (block_store_get_free_blocks cfg (Some s)) = 2 ^ 64 - unat ?R"
    unfolding free by (rule unat_neg' [OF assms(2)])
  have "unat ?N < 2 ^ 64 - unat ?R"
    using nlt rle by simp
  then show "block_store_get_total_blocks cfg < block_store_get_free_blocks cfg (Some s)"
    by (simp only: word_less_nat_alt f block_store_get_total_blocks_def)
qed

lemma store_ok_created:
  assumes "block_store_create cfg ans w = (Some s, w')"
  shows "store_ok cfg s"
  using block_store_create_result [OF assms]
  by (simp add: store_ok_def bitmap_ok_new)

text \<open>
  C10. When the reserved range is not empty, a valid store can reach a state in which
  \<open>block_store_get_used_blocks\<close> exceeds \<open>block_store_get_total_blocks\<close>: all bits set plus
  the reserved addend. Such a state is reached from a fresh store by requests that include
  every reserved id, and by deserializing a file without zero bytes. There the free count,
  the \<open>size_t\<close> difference of total and used, wraps to \<open>2 ^ 64 - BITMAP_NUM_BLOCKS\<close>, more
  than the total.
\<close>

theorem used_can_exceed_total:
  assumes "config_ok cfg" and "BITMAP_NUM_BLOCKS cfg \<noteq> 0" and "BLOCK_SIZE_BYTES cfg \<noteq> 0"
  shows "(\<forall>ans w s w'. block_store_create cfg ans w = (Some s, w') \<longrightarrow>
            (\<exists>s1. run_calls cfg (Some s)
                     (map Request (map of_nat [0..<unat (block_store_get_total_blocks cfg)]))
                   = Some s1
               \<and> store_ok cfg s1
               \<and> block_store_get_total_blocks cfg < block_store_get_used_blocks cfg (Some s1)
               \<and> unat (block_store_get_used_blocks cfg (Some s1))
                   = unat (block_store_get_total_blocks cfg) + unat (BITMAP_NUM_BLOCKS cfg)
               \<and> unat (block_store_get_free_blocks cfg (Some s1))
                   = 2 ^ 64 - unat (BITMAP_NUM_BLOCKS cfg)
               \<and> block_store_get_total_blocks cfg < block_store_get_free_blocks cfg (Some s1)))
       \<and> (\<forall>ans w path content.
            files w path = Some content \<and> length content = unat (BLOCK_STORE_NUM_BYTES cfg)
            \<and> (\<forall>b \<in> set content. b \<noteq> 0)
            \<and> open_ok ans \<and> calloc_ok ans \<and> bitmap_create_ok ans
            \<and> (\<exists>k. transfer ans = Some k \<and> unat (BLOCK_STORE_NUM_BYTES cfg) \<le> k) \<longrightarrow>
            (\<exists>s1. fst (block_store_deserialize cfg ans w (Some path)) = Some s1
               \<and> block_store_get_total_blocks cfg < block_store_get_used_blocks cfg (Some s1)
               \<and> unat (block_store_get_used_blocks cfg (Some s1))
                   = unat (block_store_get_total_blocks cfg) + unat (BITMAP_NUM_BLOCKS cfg)
               \<and> unat (block_store_get_free_blocks cfg (Some s1))
                   = 2 ^ 64 - unat (BITMAP_NUM_BLOCKS cfg)
               \<and> block_store_get_total_blocks cfg < block_store_get_free_blocks cfg (Some s1)))"
proof (intro conjI allI impI)
  fix ans :: answers and w w' :: world and s :: block_store
  let ?N = "block_store_get_total_blocks cfg"
  assume created: "block_store_create cfg ans w = (Some s, w')"
  have ok: "store_ok cfg s" using created by (rule store_ok_created)
  have bm: "bitmap s = Some (bitmap_new (unat ?N))"
    using block_store_create_result [OF created] by (simp add: block_store_get_total_blocks_def)
  from request_list_bits [OF ok bm, of "map of_nat [0..<unat ?N]"]
  obtain s1 bm1 where run: "run_calls cfg (Some s) (map Request (map of_nat [0..<unat ?N])) = Some s1"
    and ok1: "store_ok cfg s1" and bm1: "bitmap s1 = Some bm1"
    and bits: "\<forall>j. bitmap_test bm1 j \<longleftrightarrow>
        bitmap_test (bitmap_new (unat ?N)) j
        \<or> (\<exists>i \<in> set (map of_nat [0..<unat ?N]). j = unat i \<and> i < ?N)"
    by blast
  have all: "bitmap_test bm1 j" if "j < unat ?N" for j
  proof -
    have "(of_nat j :: size_t) \<in> set (map of_nat [0..<unat ?N])"
      using that by simp
    moreover have "j = unat (of_nat j :: size_t)"
      using that by (simp add: unat_of_nat_below)
    moreover have "(of_nat j :: size_t) < ?N"
      using that by (rule of_nat_below_less)
    ultimately show ?thesis using bits by blast
  qed
  from ok1 bm1 have okb: "bitmap_ok bm1" and cnt: "bit_count bm1 = unat ?N"
    by (simp_all add: store_ok_def block_store_get_total_blocks_def)
  note c = all_set_counters [OF assms bm1 okb cnt all]
  from run ok1 c
  show "\<exists>s1. run_calls cfg (Some s) (map Request (map of_nat [0..<unat ?N])) = Some s1
               \<and> store_ok cfg s1
               \<and> ?N < block_store_get_used_blocks cfg (Some s1)
               \<and> unat (block_store_get_used_blocks cfg (Some s1)) = unat ?N + unat (BITMAP_NUM_BLOCKS cfg)
               \<and> unat (block_store_get_free_blocks cfg (Some s1)) = 2 ^ 64 - unat (BITMAP_NUM_BLOCKS cfg)
               \<and> ?N < block_store_get_free_blocks cfg (Some s1)"
    by blast
next
  fix ans :: answers and w :: world and path :: string and content :: "byte list"
  let ?N = "block_store_get_total_blocks cfg" and ?NB = "unat (BLOCK_STORE_NUM_BYTES cfg)"
  let ?B = "unat (BLOCK_SIZE_BYTES cfg)"
  assume a: "files w path = Some content \<and> length content = ?NB
            \<and> (\<forall>b \<in> set content. b \<noteq> 0)
            \<and> open_ok ans \<and> calloc_ok ans \<and> bitmap_create_ok ans
            \<and> (\<exists>k. transfer ans = Some k \<and> ?NB \<le> k)"
  then obtain k where h: "files w path = Some content" "open_ok ans" "calloc_ok ans"
    "bitmap_create_ok ans" "transfer ans = Some k" "?NB \<le> k" "?NB \<le> length content"
    and len: "length content = ?NB" and nz: "\<forall>b \<in> set content. b \<noteq> 0"
    by auto
  let ?bm = "mark_blocks_from cfg content (bitmap_new (unat ?N)) 0"
  let ?s1 = "\<lparr>bitmap = Some ?bm, data = content\<rparr>"
  have d: "fst (block_store_deserialize cfg ans w (Some path)) = Some ?s1"
    using deserialize_success [where w = w and path = path and content = content
        and ans = ans and k = k and cfg = cfg] h len
    by simp
  from mark_blocks_from_spec [OF bitmap_ok_new, of "unat ?N" cfg content 0]
  have okb: "bitmap_ok ?bm" and cnt: "bit_count ?bm = unat ?N"
    by simp_all
  have all: "bitmap_test ?bm j" if "j < unat ?N" for j
  proof -
    let ?i = "of_nat j :: size_t"
    have lt: "?i < ?N" using that by (rule of_nat_below_less)
    have uj: "unat ?i = j" using that by (rule unat_of_nat_below)
    from assms(3) have pos: "0 < ?B" by (simp add: unat_gt_0)
    from block_offset(2) [OF assms(1) lt] pos len
    have "unat ?i * ?B + 0 < length content" by simp
    then have "content ! (unat ?i * ?B + 0) \<in> set content" by (rule nth_mem)
    with nz have "content ! (unat ?i * ?B + 0) \<noteq> 0" by blast
    with pos have "\<exists>k < ?B. content ! (unat ?i * ?B + k) \<noteq> 0" by blast
    then have "bitmap_test ?bm (unat ?i)"
      using deserialize_bits [OF assms(1) len lt] by simp
    then show ?thesis by (simp only: uj)
  qed
  have bm1: "bitmap ?s1 = Some ?bm" by simp
  note c = all_set_counters [OF assms bm1 okb cnt all]
  from d c
  show "\<exists>s1. fst (block_store_deserialize cfg ans w (Some path)) = Some s1
               \<and> ?N < block_store_get_used_blocks cfg (Some s1)
               \<and> unat (block_store_get_used_blocks cfg (Some s1)) = unat ?N + unat (BITMAP_NUM_BLOCKS cfg)
               \<and> unat (block_store_get_free_blocks cfg (Some s1)) = 2 ^ 64 - unat (BITMAP_NUM_BLOCKS cfg)
               \<and> ?N < block_store_get_free_blocks cfg (Some s1)"
    by blast
qed


theorem used_can_exceed_total_witness:
  "config_ok small_config
   \<and> (\<exists>s1. run_calls small_config (Some small_store)
              (map Request [0, 1, 2, 3, 4, 5, 6, 7, 8, 9, 10, 11, 12, 13, 14, 15]) = Some s1
          \<and> block_store_get_total_blocks small_config = 16
          \<and> block_store_get_used_blocks small_config (Some s1) = 18
          \<and> block_store_get_free_blocks small_config (Some s1) = 18446744073709551614)
   \<and> (\<exists>s1. fst (block_store_deserialize small_config all_ok
                   (world_with ''blocks.bin'' (replicate 64 1)) (Some ''blocks.bin'')) = Some s1
          \<and> block_store_get_used_blocks small_config (Some s1) = 18
          \<and> block_store_get_free_blocks small_config (Some s1) = 18446744073709551614)"
proof -
  have R: "BITMAP_NUM_BLOCKS small_config \<noteq> 0" and B: "BLOCK_SIZE_BYTES small_config \<noteq> 0"
    and N: "block_store_get_total_blocks small_config = 16"
    and NB: "unat (BLOCK_STORE_NUM_BYTES small_config) = 64"
    and Rv: "unat (BITMAP_NUM_BLOCKS small_config) = 2"
    by (simp_all add: small_config_def block_store_get_total_blocks_def)
  have ids: "map of_nat [0..<unat (16 :: size_t)]
      = [0, 1, 2, 3, 4, 5, 6, 7, 8, 9, 10, 11, 12, 13, 14, 15 :: size_t]"
    by code_simp
  have val: "x = 18" if "unat x = unat (16 :: size_t) + 2" for x :: size_t
  proof -
    from that have "unat x = unat (18 :: size_t)" by simp
    then show ?thesis by (rule word_unat_eq_iff [THEN iffD2])
  qed
  have wrap: "x = 18446744073709551614" if "unat x = 2 ^ 64 - 2" for x :: size_t
  proof -
    from that have "unat x = unat (18446744073709551614 :: size_t)" by simp
    then show ?thesis by (rule word_unat_eq_iff [THEN iffD2])
  qed
  note T = used_can_exceed_total [OF config_ok_small_config R B]
  from T [THEN conjunct1, rule_format, OF small_create]
  obtain s1 where run: "run_calls small_config (Some small_store)
        (map Request (map of_nat [0..<unat (block_store_get_total_blocks small_config)])) = Some s1"
    and u: "unat (block_store_get_used_blocks small_config (Some s1))
        = unat (block_store_get_total_blocks small_config) + unat (BITMAP_NUM_BLOCKS small_config)"
    and f: "unat (block_store_get_free_blocks small_config (Some s1))
        = 2 ^ 64 - unat (BITMAP_NUM_BLOCKS small_config)"
    by blast
  have first: "\<exists>s1. run_calls small_config (Some small_store)
              (map Request [0, 1, 2, 3, 4, 5, 6, 7, 8, 9, 10, 11, 12, 13, 14, 15]) = Some s1
          \<and> block_store_get_total_blocks small_config = 16
          \<and> block_store_get_used_blocks small_config (Some s1) = 18
          \<and> block_store_get_free_blocks small_config (Some s1) = 18446744073709551614"
    using run [unfolded N ids] val [OF u [unfolded N Rv]] wrap [OF f [unfolded Rv]] N
    by (intro exI [of _ s1]) (simp only: simp_thms)
  have img: "files (world_with ''blocks.bin'' (replicate 64 1)) ''blocks.bin'' = Some (replicate 64 1)
      \<and> length (replicate 64 (1 :: byte)) = unat (BLOCK_STORE_NUM_BYTES small_config)
      \<and> (\<forall>b \<in> set (replicate 64 (1 :: byte)). b \<noteq> 0)
      \<and> open_ok all_ok \<and> calloc_ok all_ok \<and> bitmap_create_ok all_ok
      \<and> (\<exists>k. transfer all_ok = Some k \<and> unat (BLOCK_STORE_NUM_BYTES small_config) \<le> k)"
    by (simp add: world_with_def all_ok_def NB)
  from T [THEN conjunct2, rule_format, OF img]
  obtain s2 where des: "fst (block_store_deserialize small_config all_ok
        (world_with ''blocks.bin'' (replicate 64 1)) (Some ''blocks.bin'')) = Some s2"
    and u2: "unat (block_store_get_used_blocks small_config (Some s2))
        = unat (block_store_get_total_blocks small_config) + unat (BITMAP_NUM_BLOCKS small_config)"
    and f2: "unat (block_store_get_free_blocks small_config (Some s2))
        = 2 ^ 64 - unat (BITMAP_NUM_BLOCKS small_config)"
    by blast
  have second: "\<exists>s1. fst (block_store_deserialize small_config all_ok
                   (world_with ''blocks.bin'' (replicate 64 1)) (Some ''blocks.bin'')) = Some s1
          \<and> block_store_get_used_blocks small_config (Some s1) = 18
          \<and> block_store_get_free_blocks small_config (Some s1) = 18446744073709551614"
    using des val [OF u2 [unfolded N Rv]] wrap [OF f2 [unfolded Rv]]
    by (intro exI [of _ s2]) (simp only: simp_thms)
  from first second show ?thesis
    by (simp only: config_ok_small_config simp_thms)
qed

end
